theory Spec2Isabelle
  imports Complex_Main
begin

section \<open>Telemetry records\<close>

text \<open>
  A telemetry record as the WebSocket feed delivers it. \<open>Speed\<close>, \<open>Latitude\<close> and
  \<open>Longitude\<close> are \<open>None\<close> when the field is absent; an absent \<open>Plate\<close> is the empty
  string (both are falsy). \<open>LocTime\<close> is kept as the outcome of \<open>new Date(LocTime)\<close>:
  \<open>Absent\<close> for a falsy field, \<open>Invalid\<close> when \<open>getTime()\<close> is NaN, \<open>Millis t\<close>
  for the epoch milliseconds otherwise.
\<close>

datatype loc_time = Absent | Invalid | Millis int

record sample =
  Plate :: string
  Speed :: "real option"
  Latitude :: "real option"
  Longitude :: "real option"
  LocTime :: loc_time

text \<open>\<open>Unparseable\<close> is a frame on which \<open>JSON.parse\<close> throws.\<close>

datatype message = Unparseable | Parsed sample

text \<open>
  The pair (latitude, longitude) when neither \<open>!Latitude\<close> nor \<open>!Longitude\<close> holds:
  an absent field and a zero are both falsy.
\<close>

definition coords :: "sample \<Rightarrow> (real \<times> real) option" where
  "coords v =
     (case (Latitude v, Longitude v) of
        (Some lat, Some lng) \<Rightarrow> if lat = 0 \<or> lng = 0 then None else Some (lat, lng)
      | _ \<Rightarrow> None)"

text \<open>\<open>Speed > 0\<close> and \<open>Speed || 0\<close>.\<close>

definition speed_positive :: "sample \<Rightarrow> bool" where
  "speed_positive v = (case Speed v of None \<Rightarrow> False | Some s \<Rightarrow> 0 < s)"

definition speed_or_zero :: "sample \<Rightarrow> real" where
  "speed_or_zero v = (case Speed v of None \<Rightarrow> 0 | Some s \<Rightarrow> s)"

section \<open>The external store\<close>

record route_plan =
  trip_id :: string
  vehicle_plate :: string
  actual_start_time :: "int option"
  actual_end_time :: "int option"

record assigned_customer =
  ac_trip_id :: string
  customer_code :: string
  latitude :: real
  longitude :: real
  completed :: bool
  completed_at :: "int option"

record trip_coordinate =
  tc_trip_id :: string
  tc_vehicle_plate :: string
  tc_latitude :: real
  tc_longitude :: real
  tc_speed :: real
  tc_timestamp :: int

text \<open>Every write that reached the store, in order.\<close>

datatype db_write =
    SetActualStart string
  | InsertCoordinate string
  | MarkCompleted string string
  | CompleteTrip string

record store =
  route_plans :: "route_plan list"
  assigned_customers :: "assigned_customer list"
  trip_coordinates :: "trip_coordinate list"
  journal :: "db_write list"

text \<open>
  The queries and updates the server issues. A query answers \<open>Some rows\<close>
  (\<open>data\<close> is \<open>null\<close> only when the client reports an error).
\<close>

definition find_open_trips :: "string \<Rightarrow> store \<Rightarrow> route_plan list option \<times> store" where
  "find_open_trips p d =
     (Some (filter (\<lambda>r. vehicle_plate r = p \<and> actual_end_time r = None) (route_plans d)), d)"

definition find_active_trips :: "string \<Rightarrow> store \<Rightarrow> route_plan list option \<times> store" where
  "find_active_trips p d =
     (Some (filter (\<lambda>r. vehicle_plate r = p \<and> actual_start_time r \<noteq> None
                          \<and> actual_end_time r = None) (route_plans d)), d)"

definition list_active_trips :: "store \<Rightarrow> route_plan list option \<times> store" where
  "list_active_trips d =
     (Some (filter (\<lambda>r. actual_start_time r \<noteq> None \<and> actual_end_time r = None)
              (route_plans d)), d)"

definition set_actual_start :: "string \<Rightarrow> int \<Rightarrow> store \<Rightarrow> unit \<times> store" where
  "set_actual_start t now d =
     ((), d\<lparr>route_plans :=
               map (\<lambda>r. if trip_id r = t then r\<lparr>actual_start_time := Some now\<rparr> else r)
                 (route_plans d),
             journal := journal d @ [SetActualStart t]\<rparr>)"

definition insert_coordinate :: "trip_coordinate \<Rightarrow> store \<Rightarrow> unit \<times> store" where
  "insert_coordinate c d =
     ((), d\<lparr>trip_coordinates := trip_coordinates d @ [c],
             journal := journal d @ [InsertCoordinate (tc_trip_id c)]\<rparr>)"

definition list_incomplete :: "string \<Rightarrow> store \<Rightarrow> assigned_customer list option \<times> store" where
  "list_incomplete t d =
     (Some (filter (\<lambda>c. ac_trip_id c = t \<and> \<not> completed c) (assigned_customers d)), d)"

definition mark_completed :: "string \<Rightarrow> string \<Rightarrow> int \<Rightarrow> store \<Rightarrow> unit \<times> store" where
  "mark_completed t code now d =
     ((), d\<lparr>assigned_customers :=
               map (\<lambda>c. if ac_trip_id c = t \<and> customer_code c = code
                         then c\<lparr>completed := True, completed_at := Some now\<rparr> else c)
                 (assigned_customers d),
             journal := journal d @ [MarkCompleted t code]\<rparr>)"

definition select_completed :: "string \<Rightarrow> store \<Rightarrow> bool list option \<times> store" where
  "select_completed t d =
     (Some (map completed (filter (\<lambda>c. ac_trip_id c = t) (assigned_customers d))), d)"

text \<open>
  Modelled from the spec: the stored procedure \<open>complete_trip\<close> is not part of the
  sources. The spec has the aggregate completion move the trip to \<open>COMPLETED\<close> (end
  set, terminal), and the implementation guide's "End Trip" statement sets
  \<open>actual_end_time = NOW()\<close> for the trip; the duration and audit columns are not
  modelled.
\<close>

definition complete_trip :: "string \<Rightarrow> int \<Rightarrow> store \<Rightarrow> unit \<times> store" where
  "complete_trip t now d =
     ((), d\<lparr>route_plans :=
               map (\<lambda>r. if trip_id r = t then r\<lparr>actual_end_time := Some now\<rparr> else r)
                 (route_plans d),
             journal := journal d @ [CompleteTrip t]\<rparr>)"

section \<open>Great-circle distance\<close>

text \<open>
  Modelled from the spec: GeoMath, the great-circle distance in kilometres between two
  points given as (longitude, latitude) in degrees. The distance package the server
  imports is not part of the sources; this is the haversine formula on a sphere of
  radius 6371.0088 km, over the real numbers.
\<close>

definition degreesToRadians :: "real \<Rightarrow> real" where
  "degreesToRadians x = x * pi / 180"

definition atan2 :: "real \<Rightarrow> real \<Rightarrow> real" where
  "atan2 y x =
     (if 0 < x then arctan (y / x)
      else if x < 0 then (if 0 \<le> y then arctan (y / x) + pi else arctan (y / x) - pi)
      else if 0 < y then pi / 2
      else if y < 0 then - (pi / 2)
      else 0)"

definition haversine_a :: "real \<times> real \<Rightarrow> real \<times> real \<Rightarrow> real" where
  "haversine_a p q =
     (let dLat = degreesToRadians (snd q - snd p);
          dLon = degreesToRadians (fst q - fst p);
          lat1 = degreesToRadians (snd p);
          lat2 = degreesToRadians (snd q)
      in (sin (dLat / 2))\<^sup>2 + (sin (dLon / 2))\<^sup>2 * cos lat1 * cos lat2)"

definition distance_km :: "real \<times> real \<Rightarrow> real \<times> real \<Rightarrow> real" where
  "distance_km p q =
     2 * atan2 (sqrt (haversine_a p q)) (sqrt (1 - haversine_a p q)) * (63710088 / 10000)"

section \<open>The server's state\<close>

record stop_info =
  stopStart :: int
  location :: "real \<times> real"
  lastLocTime :: int
  processed :: bool

datatype error = ExternalFailure | ReferenceError | SyntaxError

text \<open>The lines written with \<open>console.error\<close>.\<close>

datatype log_line =
    MissingCoordinates string
  | InvalidLocTime
  | ErrorProcessing error
  | ErrorParsing error
  | ErrorLoadingTrips error

text \<open>
  \<open>activeTrips\<close>, \<open>vehicleDataCache\<close> and \<open>vehicleStops\<close> are the three module-level
  maps. \<open>long_stops\<close> records each call of \<open>handleLongStop\<close> with its arguments.
  \<open>fuse\<close> injects one failure of the store: \<open>Some n\<close> lets \<open>n\<close> calls through and
  makes the next one raise; \<open>None\<close> is a store that answers every call. A call that
  raises is an awaited call that is rejected; a request that the client reports as failed
  in its answer is an event of the section on handlers that overlap.
  \<open>clock\<close> is the value of \<open>new Date()\<close>.
\<close>

record world =
  activeTrips :: "string \<rightharpoonup> string"
  vehicleDataCache :: "string \<rightharpoonup> sample"
  vehicleStops :: "string \<rightharpoonup> stop_info"
  subscriptionsInitialized :: bool
  db :: store
  console :: "log_line list"
  long_stops :: "(string \<times> real \<times> real) list"
  fuse :: "nat option"
  clock :: int

type_synonym 'a io = "world \<Rightarrow> (error + 'a) \<times> world"

definition io_return :: "'a \<Rightarrow> 'a io" where
  "io_return x w = (Inr x, w)"

definition io_throw :: "error \<Rightarrow> 'a io" where
  "io_throw e w = (Inl e, w)"

definition io_bind :: "'a io \<Rightarrow> ('a \<Rightarrow> 'b io) \<Rightarrow> 'b io" where
  "io_bind m f w = (case m w of (Inl e, w') \<Rightarrow> (Inl e, w') | (Inr x, w') \<Rightarrow> f x w')"

definition io_catch :: "'a io \<Rightarrow> (error \<Rightarrow> 'a io) \<Rightarrow> 'a io" where
  "io_catch m h w = (case m w of (Inl e, w') \<Rightarrow> h e w' | (Inr x, w') \<Rightarrow> (Inr x, w'))"

definition io_now :: "int io" where
  "io_now w = (Inr (clock w), w)"

definition console_error :: "log_line \<Rightarrow> unit io" where
  "console_error l w = (Inr (), w\<lparr>console := console w @ [l]\<rparr>)"

text \<open>An awaited call on the store: it raises when the fuse has run down.\<close>

definition ext_call :: "(store \<Rightarrow> 'a \<times> store) \<Rightarrow> 'a io" where
  "ext_call f w =
     (case fuse w of
        None \<Rightarrow> (Inr (fst (f (db w))), w\<lparr>db := snd (f (db w))\<rparr>)
      | Some 0 \<Rightarrow> (Inl ExternalFailure, w\<lparr>fuse := None\<rparr>)
      | Some (Suc n) \<Rightarrow> (Inr (fst (f (db w))), w\<lparr>db := snd (f (db w)), fuse := Some n\<rparr>))"

section \<open>Trip registry\<close>

definition startTripMonitoring :: "string \<Rightarrow> string \<Rightarrow> world \<Rightarrow> world" where
  "startTripMonitoring tripId vehiclePlate w =
     (if tripId \<in> dom (activeTrips w) then w
      else w\<lparr>activeTrips := (activeTrips w)(tripId \<mapsto> vehiclePlate)\<rparr>)"

definition stopTripMonitoring :: "string \<Rightarrow> world \<Rightarrow> world" where
  "stopTripMonitoring tripId w =
     (if tripId \<in> dom (activeTrips w)
      then w\<lparr>activeTrips := (activeTrips w)(tripId := None)\<rparr> else w)"

section \<open>Trip completion and long stops\<close>

definition checkTripCompletion :: "string \<Rightarrow> unit io" where
  "checkTripCompletion tripId =
     io_bind (ext_call (select_completed tripId)) (\<lambda>customers.
       case customers of
         None \<Rightarrow> io_return ()
       | Some cs \<Rightarrow>
           if cs \<noteq> [] \<and> list_all (\<lambda>c. c) cs
           then io_bind io_now (\<lambda>now. ext_call (complete_trip tripId now))
           else io_return ())"

text \<open>
  The loop of \<open>handleLongStop\<close> over the incomplete customers; \<open>p\<close> is the vehicle
  point (longitude, latitude).
\<close>

fun handleLongStop_loop :: "string \<Rightarrow> real \<times> real \<Rightarrow> assigned_customer list \<Rightarrow> unit io" where
  "handleLongStop_loop tid p [] = io_return ()"
| "handleLongStop_loop tid p (customer # rest) =
     (if distance_km p (longitude customer, latitude customer) \<le> 1
      then io_bind io_now (\<lambda>now.
           io_bind (ext_call (mark_completed tid (customer_code customer) now)) (\<lambda>_.
           handleLongStop_loop tid p rest))
      else handleLongStop_loop tid p rest)"

definition note_long_stop :: "string \<Rightarrow> real \<times> real \<Rightarrow> unit io" where
  "note_long_stop vehiclePlate loc w =
     (Inr (), w\<lparr>long_stops := long_stops w @ [(vehiclePlate, loc)]\<rparr>)"

text \<open>\<open>loc\<close> is the interval's \<open>location\<close>, (lat, lng).\<close>

definition handleLongStop :: "string \<Rightarrow> real \<times> real \<Rightarrow> unit io" where
  "handleLongStop vehiclePlate loc =
     io_bind (note_long_stop vehiclePlate loc) (\<lambda>_.
     io_bind (ext_call (find_active_trips vehiclePlate)) (\<lambda>trips.
       case trips of
         None \<Rightarrow> io_return ()
       | Some [] \<Rightarrow> io_return ()
       | Some (trip # _) \<Rightarrow>
           io_bind (ext_call (list_incomplete (trip_id trip))) (\<lambda>customers.
             case customers of
               None \<Rightarrow> io_return ()
             | Some cs \<Rightarrow>
                 io_bind (handleLongStop_loop (trip_id trip) (snd loc, fst loc) cs) (\<lambda>_.
                 checkTripCompletion (trip_id trip)))))"

section \<open>Processing one telemetry record\<close>

fun processVehicleData_loop :: "string \<Rightarrow> real \<times> real \<Rightarrow> assigned_customer list \<Rightarrow> unit io" where
  "processVehicleData_loop tid p [] = io_return ()"
| "processVehicleData_loop tid p (customer # rest) =
     (if distance_km p (longitude customer, latitude customer) \<le> 1
      then io_bind io_now (\<lambda>now.
           io_bind (ext_call (mark_completed tid (customer_code customer) now)) (\<lambda>_.
           io_bind (checkTripCompletion tid) (\<lambda>_.
           processVehicleData_loop tid p rest)))
      else processVehicleData_loop tid p rest)"

text \<open>The body of the \<open>try\<close> block.\<close>

definition processVehicleData_try :: "sample \<Rightarrow> unit io" where
  "processVehicleData_try v =
     (if Plate v = [] then io_return ()
      else case coords v of
        None \<Rightarrow> io_return ()
      | Some (lat, lng) \<Rightarrow>
          io_bind (ext_call (find_open_trips (Plate v))) (\<lambda>trips.
            case trips of
              None \<Rightarrow> io_return ()
            | Some [] \<Rightarrow> io_return ()
            | Some (trip # _) \<Rightarrow>
                io_bind
                  (if actual_start_time trip = None \<and> speed_positive v
                   then io_bind io_now (\<lambda>now.
                        io_bind (ext_call (set_actual_start (trip_id trip) now)) (\<lambda>_.
                        io_return (Some now)))
                   else io_return (actual_start_time trip))
                  (\<lambda>start.
                    if start = None then io_return ()
                    else
                      io_bind io_now (\<lambda>now.
                      io_bind (ext_call (insert_coordinate
                                 \<lparr>tc_trip_id = trip_id trip, tc_vehicle_plate = Plate v,
                                  tc_latitude = lat, tc_longitude = lng,
                                  tc_speed = speed_or_zero v, tc_timestamp = now\<rparr>)) (\<lambda>_.
                      io_bind (ext_call (list_incomplete (trip_id trip))) (\<lambda>customers.
                        case customers of
                          None \<Rightarrow> io_return ()
                        | Some cs \<Rightarrow> processVehicleData_loop (trip_id trip) (lng, lat) cs))))))"

text \<open>
  The \<open>catch\<close> block logs the error and then evaluates \<open>trip_id\<close>. That name is
  declared with \<open>let\<close> inside the \<open>try\<close> block and is not in scope in the handler,
  so the evaluation raises a ReferenceError: \<open>stopTripMonitoring\<close> is never reached
  and the promise is rejected.
\<close>

definition processVehicleData :: "sample \<Rightarrow> unit io" where
  "processVehicleData v =
     io_catch (processVehicleData_try v)
       (\<lambda>e. io_bind (console_error (ErrorProcessing e)) (\<lambda>_. io_throw ReferenceError))"

section \<open>The WebSocket message handler\<close>

definition cache_sample :: "sample \<Rightarrow> unit io" where
  "cache_sample v w = (Inr (), w\<lparr>vehicleDataCache := (vehicleDataCache w)(Plate v \<mapsto> v)\<rparr>)"

text \<open>\<open>stopInfo.processed = true\<close>, on the object held in \<open>vehicleStops\<close>.\<close>

definition set_processed :: "string \<Rightarrow> unit io" where
  "set_processed p w =
     (case vehicleStops w p of
        None \<Rightarrow> (Inr (), w)
      | Some stopInfo \<Rightarrow>
          (Inr (), w\<lparr>vehicleStops := (vehicleStops w)(p \<mapsto> stopInfo\<lparr>processed := True\<rparr>)\<rparr>))"

definition track_stop :: "sample \<Rightarrow> real \<Rightarrow> real \<Rightarrow> int \<Rightarrow> unit io" where
  "track_stop v lat lng locTime w =
     (if Speed v = Some 0 then
        (case vehicleStops w (Plate v) of
           None \<Rightarrow>
             (Inr (), w\<lparr>vehicleStops := (vehicleStops w)(Plate v \<mapsto>
                \<lparr>stopStart = locTime, location = (lat, lng), lastLocTime = locTime,
                 processed = False\<rparr>)\<rparr>)
         | Some stopInfo \<Rightarrow>
             (let w1 = w\<lparr>vehicleStops := (vehicleStops w)(Plate v \<mapsto>
                          stopInfo\<lparr>lastLocTime := locTime\<rparr>)\<rparr>;
                  stopDuration = real_of_int (locTime - stopStart stopInfo) / 1000 / 60
              in if 5 \<le> stopDuration \<and> \<not> processed stopInfo
                 then io_bind (handleLongStop (Plate v) (location stopInfo))
                        (\<lambda>_. set_processed (Plate v)) w1
                 else (Inr (), w1)))
      else (Inr (), w\<lparr>vehicleStops := (vehicleStops w)(Plate v := None)\<rparr>))"

definition on_message_try :: "message \<Rightarrow> unit io" where
  "on_message_try m =
     (case m of
        Unparseable \<Rightarrow> io_throw SyntaxError
      | Parsed v \<Rightarrow>
          io_bind (cache_sample v) (\<lambda>_.
            case coords v of
              None \<Rightarrow> console_error (MissingCoordinates (Plate v))
            | Some (lat, lng) \<Rightarrow>
                (case LocTime v of
                   Absent \<Rightarrow> io_return ()
                 | Invalid \<Rightarrow> console_error InvalidLocTime
                 | Millis locTime \<Rightarrow>
                     io_bind (track_stop v lat lng locTime) (\<lambda>_. processVehicleData v))))"

definition on_message :: "message \<Rightarrow> world \<Rightarrow> world" where
  "on_message m w =
     snd (io_catch (on_message_try m) (\<lambda>e. console_error (ErrorParsing e)) w)"

text \<open>
  The ingestion loop when the records are handled in turn: each record of the feed is
  handled to its end before the next. Handlers that overlap are the subject of the
  section on them.
\<close>

fun ingest :: "message list \<Rightarrow> world \<Rightarrow> world" where
  "ingest [] w = w"
| "ingest (m # ms) w = ingest ms (on_message m w)"

section \<open>Start-up and change notifications\<close>

fun resume_monitoring :: "route_plan list \<Rightarrow> world \<Rightarrow> world" where
  "resume_monitoring [] w = w"
| "resume_monitoring (trip # rest) w =
     resume_monitoring rest (startTripMonitoring (trip_id trip) (vehicle_plate trip) w)"

definition initializeSubscriptions :: "world \<Rightarrow> world" where
  "initializeSubscriptions w =
     (if subscriptionsInitialized w then w else w\<lparr>subscriptionsInitialized := True\<rparr>)"

definition on_open :: "world \<Rightarrow> world" where
  "on_open w =
     initializeSubscriptions
       (snd (io_catch
               (io_bind (ext_call list_active_trips) (\<lambda>trips.
                  case trips of
                    None \<Rightarrow> io_return ()
                  | Some ts \<Rightarrow> (\<lambda>w'. (Inr (), resume_monitoring ts w'))))
               (\<lambda>e. console_error (ErrorLoadingTrips e)) w))"

text \<open>
  The two subscription callbacks: an INSERT on \<open>route_plans\<close> carries the new row, an
  UPDATE the new row's id and the old and new \<open>actual_end_time\<close>.
\<close>

datatype notification =
    TripInserted string string
  | TripUpdated string "int option" "int option"

definition on_notification :: "notification \<Rightarrow> world \<Rightarrow> world" where
  "on_notification n w =
     (case n of
        TripInserted tripId vehiclePlate \<Rightarrow> startTripMonitoring tripId vehiclePlate w
      | TripUpdated tripId old_end new_end \<Rightarrow>
          if new_end \<noteq> None \<and> old_end = None then stopTripMonitoring tripId w else w)"

section \<open>The offline check of the coordinate log\<close>

text \<open>
  \<open>check-after-3pm.js\<close>, for one trip: \<open>coordinates\<close> are the logged positions the
  query returns for the trip, \<open>customers\<close> its incomplete customers.
  \<open>minDistance\<close> starts as \<open>Infinity\<close>, here \<open>None\<close>.
\<close>

fun closest :: "trip_coordinate list \<Rightarrow> real \<times> real \<Rightarrow> real option \<Rightarrow> real option" where
  "closest [] customerPoint minDistance = minDistance"
| "closest (coord # rest) customerPoint minDistance =
     (let dist = distance_km (tc_longitude coord, tc_latitude coord) customerPoint
      in if (case minDistance of None \<Rightarrow> True | Some m \<Rightarrow> dist < m)
         then closest rest customerPoint (Some dist)
         else closest rest customerPoint minDistance)"

definition would_complete :: "trip_coordinate list \<Rightarrow> assigned_customer \<Rightarrow> bool" where
  "would_complete coordinates customer =
     (if latitude customer = 0 \<or> longitude customer = 0 then False
      else case closest coordinates (longitude customer, latitude customer) None of
             None \<Rightarrow> False
           | Some minDistance \<Rightarrow> minDistance \<le> 5)"

text \<open>What one trip adds to \<open>totalWouldComplete\<close>.\<close>

definition checkAfter3PM_trip :: "trip_coordinate list \<Rightarrow> assigned_customer list \<Rightarrow> nat" where
  "checkAfter3PM_trip coordinates customers =
     (if coordinates = [] then 0
      else if customers = [] then 0
      else length (filter (would_complete coordinates) customers))"

definition checkAfter3PM :: "(trip_coordinate list \<times> assigned_customer list) list \<Rightarrow> nat" where
  "checkAfter3PM trips = sum_list (map (\<lambda>(coordinates, customers).
     checkAfter3PM_trip coordinates customers) trips)"

section \<open>Relations between the state before and after an operation\<close>

text \<open>
  \<open>io_rel R m\<close>: whatever \<open>m\<close> returns or raises, the state it leaves is related by
  \<open>R\<close> to the state it started from.
\<close>

definition io_rel :: "(world \<Rightarrow> world \<Rightarrow> bool) \<Rightarrow> 'a io \<Rightarrow> bool" where
  "io_rel R m = (\<forall>w. R w (snd (m w)))"

definition preorder_rel :: "(world \<Rightarrow> world \<Rightarrow> bool) \<Rightarrow> bool" where
  "preorder_rel R = ((\<forall>w. R w w) \<and> (\<forall>a b c. R a b \<longrightarrow> R b c \<longrightarrow> R a c))"

text \<open>No trip of the plate has its \<open>actual_end_time\<close> unset.\<close>

definition no_open_trip :: "string \<Rightarrow> store \<Rightarrow> bool" where
  "no_open_trip p d =
     (\<forall>r\<in>set (route_plans d). vehicle_plate r = p \<longrightarrow> actual_end_time r \<noteq> None)"

definition store_kept :: "string \<Rightarrow> world \<Rightarrow> world \<Rightarrow> bool" where
  "store_kept p w w' = (no_open_trip p (db w) \<longrightarrow> db w' = db w)"

section \<open>What an operation does to the store when no call fails\<close>

definition all_stops_completed :: "string \<Rightarrow> store \<Rightarrow> bool" where
  "all_stops_completed t d =
     (let cs = map completed (filter (\<lambda>c. ac_trip_id c = t) (assigned_customers d))
      in cs \<noteq> [] \<and> list_all (\<lambda>c. c) cs)"

definition check_db :: "string \<Rightarrow> int \<Rightarrow> store \<Rightarrow> store" where
  "check_db t now d = (if all_stops_completed t d then snd (complete_trip t now d) else d)"

fun handleLongStop_loop_db ::
  "string \<Rightarrow> real \<times> real \<Rightarrow> int \<Rightarrow> assigned_customer list \<Rightarrow> store \<Rightarrow> store" where
  "handleLongStop_loop_db t p now [] d = d"
| "handleLongStop_loop_db t p now (c # cs) d =
     (if distance_km p (longitude c, latitude c) \<le> 1
      then handleLongStop_loop_db t p now cs (snd (mark_completed t (customer_code c) now d))
      else handleLongStop_loop_db t p now cs d)"

fun processVehicleData_loop_db ::
  "string \<Rightarrow> real \<times> real \<Rightarrow> int \<Rightarrow> assigned_customer list \<Rightarrow> store \<Rightarrow> store" where
  "processVehicleData_loop_db t p now [] d = d"
| "processVehicleData_loop_db t p now (c # cs) d =
     (if distance_km p (longitude c, latitude c) \<le> 1
      then processVehicleData_loop_db t p now cs
             (check_db t now (snd (mark_completed t (customer_code c) now d)))
      else processVehicleData_loop_db t p now cs d)"

definition handleLongStop_db :: "string \<Rightarrow> real \<times> real \<Rightarrow> int \<Rightarrow> store \<Rightarrow> store" where
  "handleLongStop_db plate loc now d =
     (case the (fst (find_active_trips plate d)) of
        [] \<Rightarrow> d
      | trip # _ \<Rightarrow>
          check_db (trip_id trip) now
            (handleLongStop_loop_db (trip_id trip) (snd loc, fst loc) now
               (the (fst (list_incomplete (trip_id trip) d))) d))"

definition processVehicleData_db :: "sample \<Rightarrow> int \<Rightarrow> store \<Rightarrow> store" where
  "processVehicleData_db v now d =
     (if Plate v = [] then d
      else case coords v of
        None \<Rightarrow> d
      | Some (lat, lng) \<Rightarrow>
          (case the (fst (find_open_trips (Plate v) d)) of
             [] \<Rightarrow> d
           | trip # _ \<Rightarrow>
               if actual_start_time trip = None \<and> \<not> speed_positive v then d
               else
                 let d1 = (if actual_start_time trip = None
                           then snd (set_actual_start (trip_id trip) now d) else d);
                     d2 = snd (insert_coordinate
                            \<lparr>tc_trip_id = trip_id trip, tc_vehicle_plate = Plate v,
                             tc_latitude = lat, tc_longitude = lng,
                             tc_speed = speed_or_zero v, tc_timestamp = now\<rparr> d1)
                 in processVehicleData_loop_db (trip_id trip) (lng, lat) now
                      (the (fst (list_incomplete (trip_id trip) d2))) d2))"

section \<open>Start times\<close>

definition start_view :: "store \<Rightarrow> (string \<times> int option) list" where
  "start_view d = map (\<lambda>r. (trip_id r, actual_start_time r)) (route_plans d)"

definition start_times :: "string \<Rightarrow> store \<Rightarrow> int option list" where
  "start_times t d = map snd (filter (\<lambda>p. fst p = t) (start_view d))"

definition start_writes :: "string \<Rightarrow> store \<Rightarrow> nat" where
  "start_writes t d = count_list (journal d) (SetActualStart t)"

section \<open>Customer stops\<close>

definition customer_keys :: "store \<Rightarrow> (string \<times> string) list" where
  "customer_keys d = map (\<lambda>c. (ac_trip_id c, customer_code c)) (assigned_customers d)"

text \<open>The rows of trip \<open>t\<close> whose code is in \<open>S\<close>, marked completed.\<close>

definition mark_codes ::
  "string \<Rightarrow> string set \<Rightarrow> int \<Rightarrow> assigned_customer list \<Rightarrow> assigned_customer list" where
  "mark_codes t S now cs =
     map (\<lambda>c. if ac_trip_id c = t \<and> customer_code c \<in> S
               then c\<lparr>completed := True, completed_at := Some now\<rparr> else c) cs"

definition near_codes :: "real \<times> real \<Rightarrow> assigned_customer list \<Rightarrow> string set" where
  "near_codes p cs =
     customer_code ` {c \<in> set cs. distance_km p (longitude c, latitude c) \<le> 1}"

section \<open>Evaluations and trip completion\<close>

text \<open>
  A geofence evaluation is a call of \<open>processVehicleData\<close> (telemetry-driven) or of
  \<open>handleLongStop\<close> (long-stop-driven). \<open>evaluations\<close> runs them one after the
  other, each to its end before the next.
\<close>

datatype evaluation = Telemetry sample | LongStop string "real \<times> real"

definition evaluate :: "evaluation \<Rightarrow> world \<Rightarrow> world" where
  "evaluate e w =
     (case e of
        Telemetry v \<Rightarrow> snd (processVehicleData v w)
      | LongStop plate loc \<Rightarrow> snd (handleLongStop plate loc w))"

fun evaluations :: "evaluation list \<Rightarrow> world \<Rightarrow> world" where
  "evaluations [] w = w"
| "evaluations (e # es) w = evaluations es (evaluate e w)"

definition evaluate_db :: "evaluation \<Rightarrow> int \<Rightarrow> store \<Rightarrow> store" where
  "evaluate_db e now d =
     (case e of
        Telemetry v \<Rightarrow> processVehicleData_db v now d
      | LongStop plate loc \<Rightarrow> handleLongStop_db plate loc now d)"

definition completions :: "string \<Rightarrow> store \<Rightarrow> nat" where
  "completions t d = count_list (journal d) (CompleteTrip t)"

definition end_view :: "store \<Rightarrow> (string \<times> int option) list" where
  "end_view d = map (\<lambda>r. (trip_id r, actual_end_time r)) (route_plans d)"

definition ended :: "string \<Rightarrow> store \<Rightarrow> bool" where
  "ended t d = (\<exists>r\<in>set (route_plans d). trip_id r = t \<and> actual_end_time r \<noteq> None)"

definition end_frame :: "string \<Rightarrow> store \<Rightarrow> store \<Rightarrow> bool" where
  "end_frame t d d' = (end_view d' = end_view d \<and> completions t d' = completions t d)"

text \<open>The writes that mark the stop \<open>code\<close> of trip \<open>t\<close>.\<close>

definition stop_writes :: "string \<Rightarrow> string \<Rightarrow> store \<Rightarrow> nat" where
  "stop_writes t code d = count_list (journal d) (MarkCompleted t code)"

text \<open>The stop \<open>code\<close> of trip \<open>t\<close> is completed.\<close>

definition stop_completed :: "string \<Rightarrow> string \<Rightarrow> store \<Rightarrow> bool" where
  "stop_completed t code d =
     (\<exists>c\<in>set (assigned_customers d). ac_trip_id c = t \<and> customer_code c = code \<and> completed c)"

section \<open>Handlers that overlap\<close>

text \<open>
  The handlers are \<open>async\<close> functions and the message handler is registered with
  \<open>ws.on('message', async ...)\<close>: a handler runs until its next \<open>await\<close>, and while
  it waits for the store's answer the handlers of other records run. This section models
  that: a handler is a program that stops at every awaited store call, and a schedule
  says in which order records arrive and calls are answered.

  The client does not reject an awaited call. It answers \<open>{data, error}\<close>; a call that
  fails answers \<open>data: null\<close> and leaves the store as it was. A request carries what the
  client sends: a timestamp made with \<open>new Date()\<close> is taken when the request is built.
\<close>

datatype request =
    OpenTripsOf string
  | ActiveTripsOf string
  | IncompleteOf string
  | CompletedOf string
  | StartTrip string int
  | LogCoordinate trip_coordinate
  | MarkStop string string int
  | RpcCompleteTrip string

text \<open>
  The \<open>data\<close> field of an answer; \<open>Ack\<close> and \<open>Rejected\<close> answer a write, without and
  with the \<open>error\<close> field.
\<close>

datatype answer =
    Trips "route_plan list option"
  | Customers "assigned_customer list option"
  | Flags "bool list option"
  | Ack
  | Rejected

fun trips_of :: "answer \<Rightarrow> route_plan list option" where
  "trips_of (Trips ts) = ts"
| "trips_of _ = None"

fun customers_of :: "answer \<Rightarrow> assigned_customer list option" where
  "customers_of (Customers cs) = cs"
| "customers_of _ = None"

fun flags_of :: "answer \<Rightarrow> bool list option" where
  "flags_of (Flags fs) = fs"
| "flags_of _ = None"

text \<open>The store serves a request at time \<open>now\<close>.\<close>

fun serve :: "request \<Rightarrow> int \<Rightarrow> store \<Rightarrow> answer \<times> store" where
  "serve (OpenTripsOf p) now d = (Trips (fst (find_open_trips p d)), snd (find_open_trips p d))"
| "serve (ActiveTripsOf p) now d =
     (Trips (fst (find_active_trips p d)), snd (find_active_trips p d))"
| "serve (IncompleteOf t) now d =
     (Customers (fst (list_incomplete t d)), snd (list_incomplete t d))"
| "serve (CompletedOf t) now d = (Flags (fst (select_completed t d)), snd (select_completed t d))"
| "serve (StartTrip t stamp) now d = (Ack, snd (set_actual_start t stamp d))"
| "serve (LogCoordinate row) now d = (Ack, snd (insert_coordinate row d))"
| "serve (MarkStop t code stamp) now d = (Ack, snd (mark_completed t code stamp d))"
| "serve (RpcCompleteTrip t) now d = (Ack, snd (complete_trip t now d))"

text \<open>The answer of a call that fails.\<close>

fun refuse :: "request \<Rightarrow> answer" where
  "refuse (OpenTripsOf p) = Trips None"
| "refuse (ActiveTripsOf p) = Trips None"
| "refuse (IncompleteOf t) = Customers None"
| "refuse (CompletedOf t) = Flags None"
| "refuse (StartTrip t stamp) = Rejected"
| "refuse (LogCoordinate row) = Rejected"
| "refuse (MarkStop t code stamp) = Rejected"
| "refuse (RpcCompleteTrip t) = Rejected"

text \<open>
  The state of the process. A handler that has read \<open>stopInfo\<close> from \<open>vehicleStops\<close>
  keeps the object over an \<open>await\<close>; when the entry is deleted meanwhile, the object is
  no longer the one in the map. \<open>closed p\<close> counts the calls of
  \<open>vehicleStops.delete(p)\<close>, so that a handler can tell whether the object it holds is
  still the plate's entry.
\<close>

record node = world +
  closed :: "string \<Rightarrow> nat"

text \<open>
  A program: finished, waiting for the answer of a request, or reading and writing the
  state of the process on its way to the next \<open>await\<close>.
\<close>

datatype prog =
    Finished
  | Await request "answer \<Rightarrow> prog"
  | Read "node \<Rightarrow> prog"
  | Write "node \<Rightarrow> node" prog

primrec then_do :: "prog \<Rightarrow> prog \<Rightarrow> prog" where
  "then_do Finished q = q"
| "then_do (Await r k) q = Await r (\<lambda>a. then_do (k a) q)"
| "then_do (Read f) q = Read (\<lambda>n. then_do (f n) q)"
| "then_do (Write u p) q = Write u (then_do p q)"

definition log_error :: "log_line \<Rightarrow> prog" where
  "log_error l = Write (\<lambda>n. n\<lparr>console := console n @ [l]\<rparr>) Finished"

definition checkTripCompletion_task :: "string \<Rightarrow> prog" where
  "checkTripCompletion_task tripId =
     Await (CompletedOf tripId) (\<lambda>a.
       case flags_of a of
         None \<Rightarrow> Finished
       | Some cs \<Rightarrow>
           if cs \<noteq> [] \<and> list_all (\<lambda>c. c) cs
           then Await (RpcCompleteTrip tripId) (\<lambda>_. Finished)
           else Finished)"

primrec handleLongStop_loop_task ::
  "string \<Rightarrow> real \<times> real \<Rightarrow> assigned_customer list \<Rightarrow> prog" where
  "handleLongStop_loop_task tid p [] = Finished"
| "handleLongStop_loop_task tid p (customer # rest) =
     (if distance_km p (longitude customer, latitude customer) \<le> 1
      then Read (\<lambda>n. Await (MarkStop tid (customer_code customer) (clock n)) (\<lambda>_.
             handleLongStop_loop_task tid p rest))
      else handleLongStop_loop_task tid p rest)"

definition handleLongStop_task :: "string \<Rightarrow> real \<times> real \<Rightarrow> prog" where
  "handleLongStop_task vehiclePlate loc =
     Write (\<lambda>n. n\<lparr>long_stops := long_stops n @ [(vehiclePlate, loc)]\<rparr>)
       (Await (ActiveTripsOf vehiclePlate) (\<lambda>a.
          case trips_of a of
            None \<Rightarrow> Finished
          | Some [] \<Rightarrow> Finished
          | Some (trip # _) \<Rightarrow>
              Await (IncompleteOf (trip_id trip)) (\<lambda>a.
                case customers_of a of
                  None \<Rightarrow> Finished
                | Some cs \<Rightarrow>
                    then_do (handleLongStop_loop_task (trip_id trip) (snd loc, fst loc) cs)
                      (checkTripCompletion_task (trip_id trip)))))"

primrec processVehicleData_loop_task ::
  "string \<Rightarrow> real \<times> real \<Rightarrow> assigned_customer list \<Rightarrow> prog" where
  "processVehicleData_loop_task tid p [] = Finished"
| "processVehicleData_loop_task tid p (customer # rest) =
     (if distance_km p (longitude customer, latitude customer) \<le> 1
      then Read (\<lambda>n. Await (MarkStop tid (customer_code customer) (clock n)) (\<lambda>_.
             then_do (checkTripCompletion_task tid)
               (processVehicleData_loop_task tid p rest)))
      else processVehicleData_loop_task tid p rest)"

text \<open>
  \<open>processVehicleData\<close> from the coordinate log on: the trip has started, or this call
  has just sent its start.
\<close>

definition log_and_evaluate :: "sample \<Rightarrow> real \<Rightarrow> real \<Rightarrow> string \<Rightarrow> prog" where
  "log_and_evaluate v lat lng tid =
     Read (\<lambda>n.
       Await (LogCoordinate
                \<lparr>tc_trip_id = tid, tc_vehicle_plate = Plate v, tc_latitude = lat,
                 tc_longitude = lng, tc_speed = speed_or_zero v, tc_timestamp = clock n\<rparr>) (\<lambda>_.
       Await (IncompleteOf tid) (\<lambda>a.
         case customers_of a of
           None \<Rightarrow> Finished
         | Some cs \<Rightarrow> processVehicleData_loop_task tid (lng, lat) cs)))"

text \<open>
  No awaited call is rejected and nothing else in the \<open>try\<close> block raises, so the
  \<open>catch\<close> block of \<open>processVehicleData\<close> is not entered here. The answer of the update
  is not read: the local \<open>actual_start_time\<close> is set whatever the store answered.
\<close>

definition processVehicleData_task :: "sample \<Rightarrow> prog" where
  "processVehicleData_task v =
     (if Plate v = [] then Finished
      else case coords v of
        None \<Rightarrow> Finished
      | Some (lat, lng) \<Rightarrow>
          Await (OpenTripsOf (Plate v)) (\<lambda>a.
            case trips_of a of
              None \<Rightarrow> Finished
            | Some [] \<Rightarrow> Finished
            | Some (trip # _) \<Rightarrow>
                if actual_start_time trip = None \<and> speed_positive v
                then Read (\<lambda>n. Await (StartTrip (trip_id trip) (clock n)) (\<lambda>_.
                       log_and_evaluate v lat lng (trip_id trip)))
                else if actual_start_time trip = None then Finished
                else log_and_evaluate v lat lng (trip_id trip)))"

text \<open>
  \<open>stopInfo.processed = true\<close> after the \<open>await\<close>, on the object read before it:
  \<open>g\<close> is the value of \<open>closed\<close> for the plate when the object was read.
\<close>

definition set_processed_task :: "string \<Rightarrow> nat \<Rightarrow> prog" where
  "set_processed_task p g =
     Write (\<lambda>n. if closed n p = g
                 then (case vehicleStops n p of
                         None \<Rightarrow> n
                       | Some stopInfo \<Rightarrow>
                           n\<lparr>vehicleStops :=
                               (vehicleStops n)(p \<mapsto> stopInfo\<lparr>processed := True\<rparr>)\<rparr>)
                 else n) Finished"

definition track_stop_task :: "sample \<Rightarrow> real \<Rightarrow> real \<Rightarrow> int \<Rightarrow> prog" where
  "track_stop_task v lat lng locTime =
     (if Speed v = Some 0 then
        Read (\<lambda>n.
          case vehicleStops n (Plate v) of
            None \<Rightarrow>
              Write (\<lambda>n. n\<lparr>vehicleStops := (vehicleStops n)(Plate v \<mapsto>
                       \<lparr>stopStart = locTime, location = (lat, lng), lastLocTime = locTime,
                        processed = False\<rparr>)\<rparr>) Finished
          | Some stopInfo \<Rightarrow>
              Write (\<lambda>n. n\<lparr>vehicleStops := (vehicleStops n)(Plate v \<mapsto>
                       stopInfo\<lparr>lastLocTime := locTime\<rparr>)\<rparr>)
                (if 5 \<le> real_of_int (locTime - stopStart stopInfo) / 1000 / 60
                      \<and> \<not> processed stopInfo
                 then then_do (handleLongStop_task (Plate v) (location stopInfo))
                        (set_processed_task (Plate v) (closed n (Plate v)))
                 else Finished))
      else Write (\<lambda>n. n\<lparr>vehicleStops := (vehicleStops n)(Plate v := None),
                        closed := (closed n)(Plate v := Suc (closed n (Plate v)))\<rparr>) Finished)"

definition on_message_task :: "message \<Rightarrow> prog" where
  "on_message_task m =
     (case m of
        Unparseable \<Rightarrow> log_error (ErrorParsing SyntaxError)
      | Parsed v \<Rightarrow>
          Write (\<lambda>n. n\<lparr>vehicleDataCache := (vehicleDataCache n)(Plate v \<mapsto> v)\<rparr>)
            (case coords v of
               None \<Rightarrow> log_error (MissingCoordinates (Plate v))
             | Some (lat, lng) \<Rightarrow>
                 (case LocTime v of
                    Absent \<Rightarrow> Finished
                  | Invalid \<Rightarrow> log_error InvalidLocTime
                  | Millis locTime \<Rightarrow>
                      then_do (track_stop_task v lat lng locTime)
                        (processVehicleData_task v))))"

text \<open>
  \<open>advance\<close> runs a program to its next \<open>await\<close>: the result is the request it waits
  for with the rest of the program, or \<open>None\<close> when it has finished.
\<close>

primrec advance :: "prog \<Rightarrow> node \<Rightarrow> (request \<times> (answer \<Rightarrow> prog)) option \<times> node" where
  "advance Finished n = (None, n)"
| "advance (Await r k) n = (Some (r, k), n)"
| "advance (Read f) n = advance (f n) n"
| "advance (Write u p) n = advance p (u n)"

text \<open>The process and the handlers that wait for an answer, oldest first.\<close>

record system =
  process :: node
  waiting :: "(request \<times> (answer \<Rightarrow> prog)) list"

text \<open>
  \<open>Deliver m\<close>: the record \<open>m\<close> arrives and its handler runs to its first \<open>await\<close>.
  \<open>Answer i\<close>: the store serves the request of the \<open>i\<close>-th waiting handler, which runs to
  its next \<open>await\<close>. \<open>Refuse i\<close>: that request fails instead. \<open>Tick ms\<close>: time passes.
  The store's work on a request and the arrival of its answer are one step.
\<close>

datatype event = Deliver message | Answer nat | Refuse nat | Tick nat

definition resume ::
  "nat \<Rightarrow> (request \<times> (answer \<Rightarrow> prog)) option \<times> node \<Rightarrow> system \<Rightarrow> system" where
  "resume i r s =
     (case r of
        (None, n) \<Rightarrow> \<lparr>process = n, waiting = take i (waiting s) @ drop (Suc i) (waiting s)\<rparr>
      | (Some c, n) \<Rightarrow> \<lparr>process = n, waiting = (waiting s)[i := c]\<rparr>)"

fun step :: "event \<Rightarrow> system \<Rightarrow> system" where
  "step (Deliver m) s =
     (case advance (on_message_task m) (process s) of
        (None, n) \<Rightarrow> \<lparr>process = n, waiting = waiting s\<rparr>
      | (Some c, n) \<Rightarrow> \<lparr>process = n, waiting = waiting s @ [c]\<rparr>)"
| "step (Answer i) s =
     (if i < length (waiting s)
      then (case waiting s ! i of
              (r, k) \<Rightarrow>
                (case serve r (clock (process s)) (db (process s)) of
                   (a, d) \<Rightarrow> resume i (advance (k a) ((process s)\<lparr>db := d\<rparr>)) s))
      else s)"
| "step (Refuse i) s =
     (if i < length (waiting s)
      then (case waiting s ! i of (r, k) \<Rightarrow> resume i (advance (k (refuse r)) (process s)) s)
      else s)"
| "step (Tick ms) s = s\<lparr>process := (process s)\<lparr>clock := clock (process s) + int ms\<rparr>\<rparr>"

fun schedule :: "event list \<Rightarrow> system \<Rightarrow> system" where
  "schedule [] s = s"
| "schedule (e # es) s = schedule es (step e s)"

text \<open>The process started in the state \<open>w\<close>, with no handler running.\<close>

definition boot :: "world \<Rightarrow> system" where
  "boot w = \<lparr>process = world.extend w (node.fields (\<lambda>_. 0)), waiting = []\<rparr>"

text \<open>
  A program that runs alone: each of its requests is served at once, and no other handler
  runs before it has finished. \<open>awaits\<close> counts its requests.
\<close>

primrec complete :: "prog \<Rightarrow> node \<Rightarrow> node" where
  "complete Finished n = n"
| "complete (Await r k) n =
     complete (k (fst (serve r (clock n) (db n)))) (n\<lparr>db := snd (serve r (clock n) (db n))\<rparr>)"
| "complete (Read f) n = complete (f n) n"
| "complete (Write u p) n = complete p (u n)"

primrec awaits :: "prog \<Rightarrow> node \<Rightarrow> nat" where
  "awaits Finished n = 0"
| "awaits (Await r k) n =
     Suc (awaits (k (fst (serve r (clock n) (db n)))) (n\<lparr>db := snd (serve r (clock n) (db n))\<rparr>))"
| "awaits (Read f) n = awaits (f n) n"
| "awaits (Write u p) n = awaits p (u n)"

text \<open>
  The schedule in which the records are handled in turn: every call of a handler is
  answered before the next record arrives.
\<close>

fun in_turn :: "message list \<Rightarrow> node \<Rightarrow> event list" where
  "in_turn [] n = []"
| "in_turn (m # ms) n =
     Deliver m # replicate (awaits (on_message_task m) n) (Answer 0)
       @ in_turn ms (complete (on_message_task m) n)"

text \<open>The program of a geofence evaluation.\<close>

definition evaluation_task :: "evaluation \<Rightarrow> prog" where
  "evaluation_task e =
     (case e of
        Telemetry v \<Rightarrow> processVehicleData_task v
      | LongStop plate loc \<Rightarrow> handleLongStop_task plate loc)"

section \<open>Example data\<close>

definition ex_store :: store where
  "ex_store =
     \<lparr>route_plans =
        [\<lparr>trip_id = ''T1'', vehicle_plate = ''BH47JSGP'', actual_start_time = Some 0,
          actual_end_time = None\<rparr>],
      assigned_customers = [], trip_coordinates = [], journal = []\<rparr>"

definition ex_world :: world where
  "ex_world =
     \<lparr>activeTrips = Map.empty, vehicleDataCache = Map.empty, vehicleStops = Map.empty,
      subscriptionsInitialized = False, db = ex_store, console = [], long_stops = [],
      fuse = None, clock = 1000\<rparr>"

definition ex_customer :: "string \<Rightarrow> real \<Rightarrow> real \<Rightarrow> bool \<Rightarrow> assigned_customer" where
  "ex_customer code lat lng done =
     \<lparr>ac_trip_id = ''T1'', customer_code = code, latitude = lat, longitude = lng,
      completed = done, completed_at = None\<rparr>"

definition ex_sample :: "real option \<Rightarrow> loc_time \<Rightarrow> sample" where
  "ex_sample speed lt =
     \<lparr>Plate = ''BH47JSGP'', Speed = speed, Latitude = Some (- 26.144),
      Longitude = Some 28.0436, LocTime = lt\<rparr>"

text \<open>A store without any trip.\<close>

definition ex_idle :: world where
  "ex_idle = ex_world\<lparr>db := ex_store\<lparr>route_plans := []\<rparr>\<rparr>"

text \<open>The trip is planned and has not started.\<close>

definition ex_planned :: world where
  "ex_planned =
     ex_world\<lparr>db := ex_store\<lparr>route_plans :=
       [\<lparr>trip_id = ''T1'', vehicle_plate = ''BH47JSGP'', actual_start_time = None,
         actual_end_time = None\<rparr>]\<rparr>\<rparr>"

text \<open>
  The started trip with the two customer positions of the spec's example; the vehicle of
  \<open>ex_sample\<close> is at (-26.1440, 28.0436).
\<close>

definition ex_spec_stops :: world where
  "ex_spec_stops =
     ex_world\<lparr>db := ex_store\<lparr>assigned_customers :=
       [ex_customer ''TEST_CUST_002'' (- 26.145) 28.0446 False,
        ex_customer ''TEST_CUST_003'' (- 26.1441) 28.0437 False]\<rparr>\<rparr>"

text \<open>The started trip with two customers a quarter of the globe apart.\<close>

definition ex_two_stops :: world where
  "ex_two_stops =
     ex_world\<lparr>db := ex_store\<lparr>assigned_customers :=
       [ex_customer ''NORTH'' 45 10 False, ex_customer ''SOUTH'' (- 45) 10 False]\<rparr>\<rparr>"

definition ex_sample_at :: "real \<Rightarrow> real \<Rightarrow> int \<Rightarrow> sample" where
  "ex_sample_at lat lng t =
     \<lparr>Plate = ''BH47JSGP'', Speed = Some 0, Latitude = Some lat, Longitude = Some lng,
      LocTime = Millis t\<rparr>"

definition ex_logged :: "real \<Rightarrow> real \<Rightarrow> trip_coordinate" where
  "ex_logged lat lng =
     \<lparr>tc_trip_id = ''T1'', tc_vehicle_plate = ''BH47JSGP'', tc_latitude = lat,
      tc_longitude = lng, tc_speed = 0, tc_timestamp = 0\<rparr>"


text \<open>The started trip, its first stop visited at time 500.\<close>

definition ex_visited :: world where
  "ex_visited =
     ex_world\<lparr>db := ex_store\<lparr>assigned_customers :=
       [(ex_customer ''NORTH'' 45 10 True)\<lparr>completed_at := Some 500\<rparr>,
        ex_customer ''SOUTH'' (- 45) 10 False]\<rparr>\<rparr>"

text \<open>The trip has ended at time 900, both stops visited.\<close>

definition ex_finished :: world where
  "ex_finished =
     ex_world\<lparr>db := ex_store\<lparr>
       route_plans :=
         [\<lparr>trip_id = ''T1'', vehicle_plate = ''BH47JSGP'', actual_start_time = Some 0,
           actual_end_time = Some 900\<rparr>],
       assigned_customers :=
         [ex_customer ''NORTH'' 45 10 True, ex_customer ''SOUTH'' (- 45) 10 True]\<rparr>\<rparr>"

text \<open>
  Four evaluations one after the other: a record at the first stop, a long stop at the
  second, and both positions once more.
\<close>

definition ex_evaluations :: "evaluation list" where
  "ex_evaluations =
     [Telemetry (ex_sample_at 45 10 0), LongStop ''BH47JSGP'' (- 45, 10),
      Telemetry (ex_sample_at 45 10 1000), LongStop ''BH47JSGP'' (- 45, 10)]"

section \<open>Example schedules\<close>

text \<open>A vehicle standing still reports at 0 s, 300 s and 301 s.\<close>

definition ex_standing :: "message list" where
  "ex_standing =
     [Parsed (ex_sample (Some 0) (Millis 0)), Parsed (ex_sample (Some 0) (Millis 300000)),
      Parsed (ex_sample (Some 0) (Millis 301000))]"

text \<open>
  The same three records. The handler of the first runs to its end. The record of 301 s
  arrives while the handler of the record of 300 s waits for the first answer of
  \<open>handleLongStop\<close>. Then the store answers every call, the older handler first.
\<close>

definition ex_long_stop_race :: "event list" where
  "ex_long_stop_race =
     [Deliver (Parsed (ex_sample (Some 0) (Millis 0))), Answer 0, Answer 0, Answer 0,
      Deliver (Parsed (ex_sample (Some 0) (Millis 300000))),
      Deliver (Parsed (ex_sample (Some 0) (Millis 301000)))]
     @ replicate 12 (Answer 0)"

text \<open>Two records of a moving vehicle.\<close>

definition ex_moving :: "message list" where
  "ex_moving =
     [Parsed (ex_sample (Some 40) (Millis 0)), Parsed (ex_sample (Some 55) (Millis 1000))]"

text \<open>
  The same two records, the second arriving while the first waits for its trip. Each
  handler reads the trip before the store has served the other's update; the second
  builds its update half a second after the first. The schedule ends when the store has
  served the update of the first handler.
\<close>

definition ex_start_race :: "event list" where
  "ex_start_race =
     [Deliver (Parsed (ex_sample (Some 40) (Millis 0))),
      Deliver (Parsed (ex_sample (Some 55) (Millis 1000))),
      Answer 0, Tick 500, Answer 1, Answer 0]"

text \<open>The started trip, registered.\<close>

definition ex_monitored :: world where
  "ex_monitored = startTripMonitoring ''T1'' ''BH47JSGP'' ex_world"

text \<open>
  One record of a moving vehicle whose trip has started: the handler reads the trip, and
  the insert of the coordinate fails.
\<close>

definition ex_failed_insert :: "event list" where
  "ex_failed_insert =
     [Deliver (Parsed (ex_sample (Some 40) (Millis 0))), Answer 0, Refuse 0, Answer 0]"

text \<open>
  One record of a moving vehicle whose trip is planned: the handler reads the trip, and
  the update of the start time fails.
\<close>

definition ex_failed_start :: "event list" where
  "ex_failed_start =
     [Deliver (Parsed (ex_sample (Some 40) (Millis 0))), Answer 0, Refuse 0, Answer 0, Answer 0]"

text \<open>
  A record at the first stop and a record at the second, the second arriving while the
  first waits for its trip. Each handler has read the list of incomplete stops and marked
  its stop before either asks whether the trip is complete.
\<close>

definition ex_completion_race :: "event list" where
  "ex_completion_race =
     [Deliver (Parsed (ex_sample_at 45 10 0)), Deliver (Parsed (ex_sample_at (- 45) 10 1000)),
      Answer 0, Answer 0, Answer 0, Answer 1, Answer 1, Answer 1,
      Answer 0, Answer 1, Answer 0, Answer 1, Answer 0, Answer 0]"

text \<open>
  Two records at the first stop, the second arriving while the first waits for its trip:
  both handlers read the list of incomplete stops before either marks the stop, and the
  second marks it half a second after the first.
\<close>

definition ex_mark_race :: "event list" where
  "ex_mark_race =
     [Deliver (Parsed (ex_sample_at 45 10 0)), Deliver (Parsed (ex_sample_at 45 10 1000)),
      Answer 0, Answer 0, Answer 0, Answer 1, Answer 1, Tick 500, Answer 1, Answer 0, Answer 1]"
section \<open>Composing relations along the control flow\<close>

lemma io_rel_return: "preorder_rel R \<Longrightarrow> io_rel R (io_return x)"
  by (simp add: io_rel_def io_return_def preorder_rel_def)

lemma io_rel_throw: "preorder_rel R \<Longrightarrow> io_rel R (io_throw e)"
  by (simp add: io_rel_def io_throw_def preorder_rel_def)

lemma io_rel_bind:
  assumes "preorder_rel R" "io_rel R m" "\<And>x. io_rel R (f x)"
  shows "io_rel R (io_bind m f)"
  unfolding io_rel_def
proof
  fix w
  obtain r w' where mw: "m w = (r, w')" by (cases "m w")
  have first: "R w w'"
    using assms(2) mw by (auto simp: io_rel_def dest: spec[of _ w])
  show "R w (snd (io_bind m f w))"
  proof (cases r)
    case (Inl e)
    then show ?thesis using mw first by (simp add: io_bind_def)
  next
    case (Inr x)
    have "R w' (snd (f x w'))" using assms(3) by (simp add: io_rel_def)
    with first assms(1) have "R w (snd (f x w'))" unfolding preorder_rel_def by blast
    then show ?thesis using mw Inr by (simp add: io_bind_def)
  qed
qed

lemma io_rel_catch:
  assumes "preorder_rel R" "io_rel R m" "\<And>e. io_rel R (h e)"
  shows "io_rel R (io_catch m h)"
  unfolding io_rel_def
proof
  fix w
  obtain r w' where mw: "m w = (r, w')" by (cases "m w")
  have first: "R w w'"
    using assms(2) mw by (auto simp: io_rel_def dest: spec[of _ w])
  show "R w (snd (io_catch m h w))"
  proof (cases r)
    case (Inr x)
    then show ?thesis using mw first by (simp add: io_catch_def)
  next
    case (Inl e)
    have "R w' (snd (h e w'))" using assms(3) by (simp add: io_rel_def)
    with first assms(1) have "R w (snd (h e w'))" unfolding preorder_rel_def by blast
    then show ?thesis using mw Inl by (simp add: io_catch_def)
  qed
qed

section \<open>Runs without a failing call\<close>

lemma ext_call_ok:
  "fuse w = None \<Longrightarrow> ext_call f w = (Inr (fst (f (db w))), w\<lparr>db := snd (f (db w))\<rparr>)"
  by (simp add: ext_call_def)

lemma checkTripCompletion_ok:
  "fuse w = None \<Longrightarrow>
   checkTripCompletion t w = (Inr (), w\<lparr>db := check_db t (clock w) (db w)\<rparr>)"
  by (simp add: checkTripCompletion_def io_bind_def ext_call_ok select_completed_def io_now_def
      io_return_def check_db_def all_stops_completed_def)

lemma handleLongStop_loop_ok:
  "fuse w = None \<Longrightarrow>
   handleLongStop_loop t p cs w =
     (Inr (), w\<lparr>db := handleLongStop_loop_db t p (clock w) cs (db w)\<rparr>)"
  by (induction cs arbitrary: w)
    (simp_all add: io_return_def io_bind_def io_now_def ext_call_ok)

lemma processVehicleData_loop_ok:
  "fuse w = None \<Longrightarrow>
   processVehicleData_loop t p cs w =
     (Inr (), w\<lparr>db := processVehicleData_loop_db t p (clock w) cs (db w)\<rparr>)"
  by (induction cs arbitrary: w)
    (simp_all add: io_return_def io_bind_def io_now_def ext_call_ok checkTripCompletion_ok)

lemma handleLongStop_ok:
  "fuse w = None \<Longrightarrow>
   handleLongStop p loc w =
     (Inr (), w\<lparr>long_stops := long_stops w @ [(p, loc)],
                db := handleLongStop_db p loc (clock w) (db w)\<rparr>)"
  by (simp add: handleLongStop_def handleLongStop_db_def io_bind_def note_long_stop_def
      ext_call_ok io_return_def find_active_trips_def list_incomplete_def
      handleLongStop_loop_ok checkTripCompletion_ok split: list.splits)

lemma processVehicleData_ok:
  "fuse w = None \<Longrightarrow>
   processVehicleData v w = (Inr (), w\<lparr>db := processVehicleData_db v (clock w) (db w)\<rparr>)"
  by (simp add: processVehicleData_def processVehicleData_try_def processVehicleData_db_def
      io_catch_def io_bind_def ext_call_ok io_return_def io_now_def find_open_trips_def
      list_incomplete_def set_actual_start_def insert_coordinate_def
      processVehicleData_loop_ok Let_def split: list.splits option.splits)

section \<open>Handlers that run alone\<close>

text \<open>
  A handler that runs alone does what the handler of the first sections does on a store
  whose calls do not fail, and the schedule \<open>in_turn\<close> is the ingestion loop
  \<open>ingest\<close>.
\<close>

lemma complete_then_do: "complete (then_do p q) n = complete q (complete p n)"
  by (induction p arbitrary: n) simp_all

lemma advance_complete:
  "(case advance p n of
      (None, n') \<Rightarrow> complete p n = n' \<and> awaits p n = 0
    | (Some (r, k), n') \<Rightarrow>
        complete p n = complete (Await r k) n' \<and> awaits p n = awaits (Await r k) n')"
proof (induction p arbitrary: n)
  case Finished
  show ?case by simp
next
  case (Await r k)
  show ?case by simp
next
  case (Read f)
  show ?case using Read.IH[of "f n" n] by (simp split: prod.splits option.splits)
next
  case (Write u p)
  show ?case using Write.IH[of "u n"] by (simp split: prod.splits option.splits)
qed

lemma answers_complete:
  assumes "awaits (Await r k) n \<le> j"
  shows "schedule (replicate j (Answer 0)) \<lparr>process = n, waiting = [(r, k)]\<rparr> =
     \<lparr>process = complete (Await r k) n, waiting = []\<rparr>"
  using assms
proof (induction j arbitrary: r k n)
  case 0
  then show ?case by simp
next
  case (Suc j)
  let ?a = "fst (serve r (clock n) (db n))" and ?d = "snd (serve r (clock n) (db n))"
  let ?n = "n\<lparr>db := ?d\<rparr>"
  have less: "awaits (k ?a) ?n \<le> j" using Suc.prems by simp
  have answered: "step (Answer 0) \<lparr>process = n, waiting = [(r, k)]\<rparr> =
      resume 0 (advance (k ?a) ?n) \<lparr>process = n, waiting = [(r, k)]\<rparr>"
    by (simp add: case_prod_beta)
  show ?case
  proof (cases "advance (k ?a) ?n")
    case (Pair c n')
    note facts = advance_complete[of "k ?a" ?n, unfolded Pair]
    show ?thesis
    proof (cases c)
      case None
      then have fin: "complete (k ?a) ?n = n'" using facts by simp
      have "step (Answer 0) \<lparr>process = n, waiting = [(r, k)]\<rparr> =
          \<lparr>process = n', waiting = []\<rparr>"
        unfolding answered Pair None by (simp add: resume_def)
      moreover have "schedule (replicate j (Answer 0)) \<lparr>process = n', waiting = []\<rparr> =
          \<lparr>process = n', waiting = []\<rparr>"
        by (induction j) simp_all
      ultimately show ?thesis using fin by simp
    next
      case (Some rk)
      obtain r' k' where rk: "rk = (r', k')" by (cases rk)
      have next_facts: "complete (k ?a) ?n = complete (Await r' k') n'"
        "awaits (k ?a) ?n = awaits (Await r' k') n'"
        using facts Some rk by simp_all
      have "step (Answer 0) \<lparr>process = n, waiting = [(r, k)]\<rparr> =
          \<lparr>process = n', waiting = [(r', k')]\<rparr>"
        unfolding answered Pair Some rk by (simp add: resume_def)
      moreover have "schedule (replicate j (Answer 0)) \<lparr>process = n', waiting = [(r', k')]\<rparr> =
          \<lparr>process = complete (Await r' k') n', waiting = []\<rparr>"
        using Suc.IH[of r' k' n'] less next_facts(2) by simp
      ultimately show ?thesis using next_facts(1) by simp
    qed
  qed
qed

lemma deliver_alone:
  assumes "awaits (on_message_task m) n \<le> j"
  shows "schedule (Deliver m # replicate j (Answer 0)) \<lparr>process = n, waiting = []\<rparr> =
     \<lparr>process = complete (on_message_task m) n, waiting = []\<rparr>"
proof (cases "advance (on_message_task m) n")
  case (Pair c n')
  note facts = advance_complete[of "on_message_task m" n, unfolded Pair]
  show ?thesis
  proof (cases c)
    case None
    have "schedule (replicate j (Answer 0)) \<lparr>process = n', waiting = []\<rparr> =
          \<lparr>process = n', waiting = []\<rparr>"
      by (induction j) simp_all
    then show ?thesis using Pair None facts by simp
  next
    case (Some rk)
    obtain r k where rk: "rk = (r, k)" by (cases rk)
    have "awaits (Await r k) n' \<le> j" using facts Some rk assms by simp
    from answers_complete[OF this] show ?thesis using Pair Some rk facts by simp
  qed
qed

lemma complete_checkTripCompletion:
  "complete (checkTripCompletion_task t) n = n\<lparr>db := check_db t (clock n) (db n)\<rparr>"
  by (simp add: checkTripCompletion_task_def check_db_def all_stops_completed_def
      select_completed_def Let_def)

lemma complete_handleLongStop_loop:
  "complete (handleLongStop_loop_task t p cs) n =
     n\<lparr>db := handleLongStop_loop_db t p (clock n) cs (db n)\<rparr>"
  by (induction cs arbitrary: n) simp_all

lemma complete_processVehicleData_loop:
  "complete (processVehicleData_loop_task t p cs) n =
     n\<lparr>db := processVehicleData_loop_db t p (clock n) cs (db n)\<rparr>"
  by (induction cs arbitrary: n) (simp_all add: complete_then_do complete_checkTripCompletion)

lemma complete_handleLongStop:
  "complete (handleLongStop_task plate loc) n =
     n\<lparr>long_stops := long_stops n @ [(plate, loc)],
       db := handleLongStop_db plate loc (clock n) (db n)\<rparr>"
  by (simp add: handleLongStop_task_def handleLongStop_db_def find_active_trips_def
      list_incomplete_def complete_then_do complete_handleLongStop_loop
      complete_checkTripCompletion split: list.splits)

lemma complete_processVehicleData:
  "complete (processVehicleData_task v) n =
     n\<lparr>db := processVehicleData_db v (clock n) (db n)\<rparr>"
  by (simp add: processVehicleData_task_def processVehicleData_db_def log_and_evaluate_def
      find_open_trips_def list_incomplete_def complete_processVehicleData_loop Let_def
      split: list.splits option.splits)

lemma processVehicleData_alone:
  assumes "fuse n = None"
  shows "snd (processVehicleData v (world.truncate n)) =
     world.truncate (complete (processVehicleData_task v) n)"
  using assms
  by (simp add: processVehicleData_ok complete_processVehicleData world.truncate_def)

lemma handleLongStop_alone:
  assumes "fuse n = None"
  shows "snd (handleLongStop plate loc (world.truncate n)) =
     world.truncate (complete (handleLongStop_task plate loc) n)"
  using assms
  by (simp add: handleLongStop_ok complete_handleLongStop world.truncate_def)

lemma track_stop_alone:
  assumes "fuse n = None"
  shows "snd (track_stop v lat lng t (world.truncate n)) =
       world.truncate (complete (track_stop_task v lat lng t) n) \<and>
     fst (track_stop v lat lng t (world.truncate n)) = Inr () \<and>
     fuse (complete (track_stop_task v lat lng t) n) = None"
proof (cases "Speed v = Some 0")
  case False
  then show ?thesis
    using assms by (simp add: track_stop_def track_stop_task_def world.truncate_def)
next
  case True
  show ?thesis
  proof (cases "vehicleStops n (Plate v)")
    case None
    then show ?thesis
      using True assms by (simp add: track_stop_def track_stop_task_def world.truncate_def)
  next
    case (Some stopInfo)
    show ?thesis
      using True Some assms
      by (simp add: track_stop_def track_stop_task_def world.truncate_def Let_def io_bind_def
          handleLongStop_ok set_processed_def set_processed_task_def complete_then_do
          complete_handleLongStop)
  qed
qed

lemma on_message_alone:
  assumes "fuse n = None"
  shows "on_message m (world.truncate n) = world.truncate (complete (on_message_task m) n)"
proof (cases m)
  case Unparseable
  then show ?thesis
    by (simp add: on_message_def on_message_try_def io_catch_def io_throw_def console_error_def
        on_message_task_def log_error_def world.truncate_def)
next
  case (Parsed v)
  let ?n1 = "n\<lparr>vehicleDataCache := (vehicleDataCache n)(Plate v \<mapsto> v)\<rparr>"
  have cached: "cache_sample v (world.truncate n) = (Inr (), world.truncate ?n1)"
    by (simp add: cache_sample_def world.truncate_def)
  have logged: "console_error l (world.truncate k) =
      (Inr (), world.truncate (k\<lparr>console := console k @ [l]\<rparr>))" for l and k :: node
    by (simp add: console_error_def world.truncate_def)
  have f1: "fuse ?n1 = None" using assms by simp
  show ?thesis
  proof (cases "coords v")
    case None
    then show ?thesis
      using Parsed
      by (simp add: on_message_def on_message_try_def io_catch_def io_bind_def cached
          logged on_message_task_def log_error_def)
  next
    case (Some c)
    obtain lat lng where c: "c = (lat, lng)" by (cases c)
    show ?thesis
    proof (cases "LocTime v")
      case Absent
      then show ?thesis
        using Parsed Some c
        by (simp add: on_message_def on_message_try_def io_catch_def io_bind_def cached
            io_return_def on_message_task_def)
    next
      case Invalid
      then show ?thesis
        using Parsed Some c
        by (simp add: on_message_def on_message_try_def io_catch_def io_bind_def cached
            logged on_message_task_def log_error_def)
    next
      case (Millis t)
      let ?n2 = "complete (track_stop_task v lat lng t) ?n1"
      note tracked = track_stop_alone[OF f1, of v lat lng t]
      have tr: "track_stop v lat lng t (world.truncate ?n1) = (Inr (), world.truncate ?n2)"
        using tracked by (simp add: prod_eq_iff)
      have f2: "fuse ?n2 = None" using tracked by simp
      have "fuse (world.truncate ?n2) = None" using f2 by (simp add: world.truncate_def)
      from processVehicleData_ok[OF this, of v]
      have pv: "processVehicleData v (world.truncate ?n2) =
          (Inr (), world.truncate (complete (processVehicleData_task v) ?n2))"
        by (simp add: complete_processVehicleData world.truncate_def)
      show ?thesis
        using Parsed Some c Millis
        by (simp add: on_message_def on_message_try_def io_catch_def io_bind_def cached tr pv
            on_message_task_def complete_then_do)
    qed
  qed
qed

lemma schedule_append: "schedule (xs @ ys) s = schedule ys (schedule xs s)"
  by (induction xs arbitrary: s) simp_all

lemma on_message_task_fuse: "fuse (complete (on_message_task m) n) = fuse n"
proof (cases m)
  case Unparseable
  then show ?thesis by (simp add: on_message_task_def log_error_def)
next
  case (Parsed v)
  have track: "fuse (complete (track_stop_task v lat lng t) k) = fuse k" for lat lng t k
    by (simp add: track_stop_task_def set_processed_task_def complete_then_do
        complete_handleLongStop split: option.splits)
  show ?thesis
    using Parsed
    by (simp add: on_message_task_def log_error_def complete_then_do
        complete_processVehicleData track split: option.splits loc_time.splits)
qed

lemma schedule_in_turn:
  "schedule (in_turn ms n) \<lparr>process = n, waiting = []\<rparr> =
     \<lparr>process = fold (\<lambda>m. complete (on_message_task m)) ms n, waiting = []\<rparr>"
proof (induction ms arbitrary: n)
  case Nil
  show ?case by simp
next
  case (Cons m ms)
  have "schedule (Deliver m # replicate (awaits (on_message_task m) n) (Answer 0))
      \<lparr>process = n, waiting = []\<rparr> =
      \<lparr>process = complete (on_message_task m) n, waiting = []\<rparr>"
    by (rule deliver_alone) simp
  then show ?case
    using Cons.IH[of "complete (on_message_task m) n"]
    by (simp only: in_turn.simps schedule_append append_Cons[symmetric] fold_simps)
qed

lemma ingest_alone:
  assumes "fuse n = None"
  shows "ingest ms (world.truncate n) =
     world.truncate (fold (\<lambda>m. complete (on_message_task m)) ms n)"
  using assms
proof (induction ms arbitrary: n)
  case Nil
  show ?case by simp
next
  case (Cons m ms)
  have "fuse (complete (on_message_task m) n) = None"
    using Cons.prems by (simp add: on_message_task_fuse)
  from Cons.IH[OF this] show ?case
    by (simp add: on_message_alone[OF Cons.prems])
qed

lemma ingest_in_turn:
  assumes "fuse w = None"
  shows "world.truncate (process (schedule (in_turn ms (process (boot w))) (boot w))) =
     ingest ms w"
proof -
  have b: "boot w = \<lparr>process = process (boot w), waiting = []\<rparr>"
    by (simp add: boot_def)
  have f: "fuse (process (boot w)) = None"
    using assms by (simp add: boot_def world.defs node.defs)
  have t: "world.truncate (process (boot w)) = w"
    by (simp add: boot_def world.defs node.defs)
  have "schedule (in_turn ms (process (boot w))) (boot w) =
      \<lparr>process = fold (\<lambda>m. complete (on_message_task m)) ms (process (boot w)), waiting = []\<rparr>"
    using schedule_in_turn[of ms "process (boot w)"] b by simp
  then show ?thesis
    using ingest_alone[OF f, of ms] t by simp
qed

lemma evaluate_alone:
  assumes "fuse n = None"
  shows "evaluate e (world.truncate n) = world.truncate (complete (evaluation_task e) n)"
  using assms
  by (cases e)
    (simp_all add: evaluate_def evaluation_task_def processVehicleData_alone handleLongStop_alone)

lemma evaluations_alone:
  assumes "fuse n = None"
  shows "evaluations es (world.truncate n) =
     world.truncate (fold (\<lambda>e. complete (evaluation_task e)) es n)"
  using assms
proof (induction es arbitrary: n)
  case Nil
  show ?case by simp
next
  case (Cons e es)
  have "fuse (complete (evaluation_task e) n) = None"
    using Cons.prems
    by (cases e)
      (simp_all add: evaluation_task_def complete_processVehicleData complete_handleLongStop)
  from Cons.IH[OF this] show ?case
    by (simp add: evaluate_alone[OF Cons.prems])
qed

section \<open>Lists\<close>

lemma count_list_snoc: "count_list (xs @ [y]) x = count_list xs x + (if x = y then 1 else 0)"
  by (induction xs) auto

lemma first_of_filter:
  assumes "filter P xs = r # rest"
  shows "r \<in> set xs" and "P r"
proof -
  have "r \<in> set (filter P xs)" using assms by simp
  then show "r \<in> set xs" and "P r" by simp_all
qed

section \<open>Bounds on the distance\<close>

lemma arctan_le_self:
  fixes x :: real
  assumes "0 \<le> x"
  shows "arctan x \<le> x"
proof -
  have "(\<lambda>t. t - arctan t) 0 \<le> (\<lambda>t. t - arctan t) x"
  proof (rule DERIV_nonneg_imp_nondecreasing[OF assms])
    fix t :: real
    have "((\<lambda>t. t - arctan t) has_real_derivative 1 - inverse (1 + t\<^sup>2)) (at t)"
      by (auto intro!: derivative_eq_intros simp add: field_simps)
    moreover have "0 \<le> 1 - inverse (1 + t\<^sup>2)"
    proof -
      have "1 \<le> 1 + t\<^sup>2" by simp
      then have "inverse (1 + t\<^sup>2) \<le> 1" by (rule inverse_le_1_iff[THEN iffD2, OF disjI2])
      then show ?thesis by simp
    qed
    ultimately show "\<exists>y. ((\<lambda>t. t - arctan t) has_real_derivative y) (at t) \<and> 0 \<le> y"
      by blast
  qed
  then show ?thesis by simp
qed

lemma sin_sq_le: "(sin (x::real))\<^sup>2 \<le> x\<^sup>2"
proof -
  have "\<bar>sin x\<bar>\<^sup>2 \<le> \<bar>x\<bar>\<^sup>2"
    by (rule power_mono[OF abs_sin_x_le_abs_x]) simp
  then show ?thesis by simp
qed

lemma half_angle_sq:
  assumes "\<bar>x\<bar> \<le> e"
  shows "(sin (degreesToRadians x / 2))\<^sup>2 \<le> (e / 90)\<^sup>2"
proof -
  have "0 \<le> e" using assms by linarith
  have "\<bar>degreesToRadians x / 2\<bar> = \<bar>x\<bar> * (pi / 360)"
    by (simp add: degreesToRadians_def abs_mult)
  also have "\<dots> \<le> e * (pi / 360)"
    using assms by (intro mult_right_mono) simp_all
  also have "\<dots> \<le> e * (4 / 360)"
    using \<open>0 \<le> e\<close> pi_less_4 by (intro mult_left_mono) simp_all
  finally have "\<bar>degreesToRadians x / 2\<bar> \<le> \<bar>e / 90\<bar>"
    using \<open>0 \<le> e\<close> by simp
  then have "(degreesToRadians x / 2)\<^sup>2 \<le> (e / 90)\<^sup>2"
    by (rule abs_le_square_iff[THEN iffD1])
  with sin_sq_le[of "degreesToRadians x / 2"] show ?thesis by linarith
qed

lemma haversine_a_near:
  assumes "\<bar>snd q - snd p\<bar> \<le> e" "\<bar>fst q - fst p\<bar> \<le> e"
  shows "haversine_a p q \<le> 2 * (e / 90)\<^sup>2"
proof -
  let ?s = "(sin (degreesToRadians (fst q - fst p) / 2))\<^sup>2"
  let ?c = "cos (degreesToRadians (snd p)) * cos (degreesToRadians (snd q))"
  have "\<bar>?c\<bar> \<le> 1 * 1"
    unfolding abs_mult by (intro mult_mono) simp_all
  then have c: "?c \<le> 1" by linarith
  have "?s * ?c \<le> ?s * 1"
    using c by (intro mult_left_mono) simp_all
  then have "?s * cos (degreesToRadians (snd p)) * cos (degreesToRadians (snd q)) \<le> ?s"
    by (simp add: mult.assoc)
  with half_angle_sq[OF assms(1)] half_angle_sq[OF assms(2)] show ?thesis
    by (simp add: haversine_a_def Let_def)
qed

lemma distance_km_near:
  assumes "\<bar>snd q - snd p\<bar> \<le> e" "\<bar>fst q - fst p\<bar> \<le> e" "e \<le> 1"
  shows "distance_km p q \<le> 250 * e"
proof -
  let ?a = "haversine_a p q"
  have e0: "0 \<le> e" using assms(1) by linarith
  have a: "?a \<le> 2 * (e / 90)\<^sup>2"
    using assms(1,2) by (rule haversine_a_near)
  have "(e / 90)\<^sup>2 \<le> (1 / 90)\<^sup>2"
    using e0 assms(3) by (intro power_mono) simp_all
  then have small: "?a \<le> 1 / 100"
    using a by (simp add: power2_eq_square)
  have "(99 / 100)\<^sup>2 \<le> 1 - ?a"
    using small by (simp add: power2_eq_square)
  then have den: "99 / 100 \<le> sqrt (1 - ?a)"
    by (rule real_le_rsqrt)
  then have pos: "0 < sqrt (1 - ?a)" by linarith
  have num: "sqrt ?a \<le> (3 / 2) * (e / 90)"
  proof (rule real_le_lsqrt)
    show "0 \<le> 3 / 2 * (e / 90)" using e0 by simp
    have "2 * (e / 90)\<^sup>2 \<le> (3 / 2 * (e / 90))\<^sup>2"
      by (simp add: power2_eq_square field_simps)
    with a show "?a \<le> (3 / 2 * (e / 90))\<^sup>2" by linarith
  qed
  have ratio: "sqrt ?a / sqrt (1 - ?a) \<le> e / 55"
  proof (cases "0 \<le> sqrt ?a")
    case True
    have "sqrt ?a / sqrt (1 - ?a) \<le> (3 / 2 * (e / 90)) / (99 / 100)"
      using e0 by (intro frac_le[OF _ num _ den]) simp_all
    also have "\<dots> \<le> e / 55"
      using e0 by (simp add: field_simps)
    finally show ?thesis .
  next
    case False
    then have "sqrt ?a / sqrt (1 - ?a) \<le> 0"
      using pos by (simp add: divide_nonpos_pos)
    moreover have "0 \<le> e / 55" using e0 by simp
    ultimately show ?thesis by (rule order_trans)
  qed
  have "arctan (sqrt ?a / sqrt (1 - ?a)) \<le> arctan (e / 55)"
    using ratio by (rule arctan_monotone')
  also have "\<dots> \<le> e / 55"
    using e0 by (intro arctan_le_self) simp
  finally have "atan2 (sqrt ?a) (sqrt (1 - ?a)) \<le> e / 55"
    using pos by (simp add: atan2_def)
  then have "distance_km p q \<le> 2 * (e / 55) * (63710088 / 10000)"
    unfolding distance_km_def by (intro mult_right_mono mult_left_mono) simp_all
  also have "\<dots> \<le> 250 * e"
    using e0 by (simp add: field_simps)
  finally show ?thesis .
qed

lemma distance_km_self: "distance_km p p = 0"
  by (simp add: distance_km_def haversine_a_def atan2_def degreesToRadians_def)

lemma distance_km_poles: "1 < distance_km (a, 90) (a, - 90)"
proof -
  have "haversine_a (a, 90) (a, - 90) = 1"
    by (simp add: haversine_a_def degreesToRadians_def)
  then have "distance_km (a, 90) (a, - 90) = pi * (63710088 / 10000)"
    by (simp add: distance_km_def atan2_def)
  then show ?thesis using pi_ge_two by simp
qed

lemma distance_km_quarter_turn: "6371 < distance_km (a, 45) (a, - 45)"
proof -
  have half: "haversine_a (a, 45) (a, - 45) = 1 / 2"
    by (simp add: haversine_a_def degreesToRadians_def sin_45 power2_eq_square)
  have "sqrt (1 / 2) / sqrt (1 - 1 / 2) = (1::real)"
    by simp
  then have "atan2 (sqrt (1 / 2)) (sqrt (1 - 1 / 2)) = pi / 4"
    by (simp add: atan2_def arctan_one)
  then have "distance_km (a, 45) (a, - 45) = 2 * (pi / 4) * (63710088 / 10000)"
    unfolding distance_km_def half by (rule arg_cong[where f = "\<lambda>x. 2 * x * (63710088 / 10000)"])
  then show ?thesis using pi_ge_two by simp
qed

section \<open>Which stops are marked\<close>

lemma mark_completed_customers:
  "assigned_customers (snd (mark_completed t code now d)) =
     mark_codes t {code} now (assigned_customers d)"
  by (simp add: mark_completed_def mark_codes_def)

lemma mark_codes_twice:
  "mark_codes t S now (mark_codes t S' now cs) = mark_codes t (S \<union> S') now cs"
  by (induction cs) (auto simp add: mark_codes_def)

lemma mark_codes_empty: "mark_codes t {} now cs = cs"
  by (simp add: mark_codes_def)

lemma check_db_customers: "assigned_customers (check_db t now d) = assigned_customers d"
  by (simp add: check_db_def complete_trip_def)

lemma near_codes_Cons:
  "near_codes p (c # cs) =
     (if distance_km p (longitude c, latitude c) \<le> 1 then insert (customer_code c) (near_codes p cs)
      else near_codes p cs)"
  by (auto simp add: near_codes_def)

lemma handleLongStop_loop_db_customers:
  "assigned_customers (handleLongStop_loop_db t p now cs d) =
     mark_codes t (near_codes p cs) now (assigned_customers d)"
proof (induction cs arbitrary: d)
  case Nil
  show ?case by (simp add: near_codes_def mark_codes_empty)
next
  case (Cons c cs)
  show ?case
    by (simp add: Cons.IH near_codes_Cons mark_completed_customers mark_codes_twice)
qed

lemma processVehicleData_loop_db_customers:
  "assigned_customers (processVehicleData_loop_db t p now cs d) =
     mark_codes t (near_codes p cs) now (assigned_customers d)"
proof (induction cs arbitrary: d)
  case Nil
  show ?case by (simp add: near_codes_def mark_codes_empty)
next
  case (Cons c cs)
  show ?case
    by (simp add: Cons.IH near_codes_Cons mark_completed_customers mark_codes_twice
        check_db_customers)
qed

lemma near_codes_row:
  assumes "distinct (customer_keys d)"
    and "r \<in> set (assigned_customers d)" "ac_trip_id r = t" "\<not> completed r"
  shows "(customer_code r \<in> near_codes p (the (fst (list_incomplete t d)))) =
         (distance_km p (longitude r, latitude r) \<le> 1)"
proof
  assume "customer_code r \<in> near_codes p (the (fst (list_incomplete t d)))"
  then obtain c where c: "c \<in> set (assigned_customers d)" "ac_trip_id c = t"
      "customer_code c = customer_code r" "distance_km p (longitude c, latitude c) \<le> 1"
    by (auto simp add: near_codes_def list_incomplete_def)
  have "inj_on (\<lambda>c. (ac_trip_id c, customer_code c)) (set (assigned_customers d))"
    using assms(1) by (simp add: customer_keys_def distinct_map)
  then have "c = r"
    using c(1,2,3) assms(2,3) by (auto dest: inj_onD)
  then show "distance_km p (longitude r, latitude r) \<le> 1" using c(4) by simp
next
  assume "distance_km p (longitude r, latitude r) \<le> 1"
  then show "customer_code r \<in> near_codes p (the (fst (list_incomplete t d)))"
    using assms(2,3,4) by (auto simp add: near_codes_def list_incomplete_def)
qed

lemma completed_row_not_near:
  assumes "distinct (customer_keys d)"
    and "r \<in> set (assigned_customers d)" "ac_trip_id r = t" "completed r"
  shows "customer_code r \<notin> near_codes p (the (fst (list_incomplete t d)))"
proof
  assume "customer_code r \<in> near_codes p (the (fst (list_incomplete t d)))"
  then obtain c where c: "c \<in> set (assigned_customers d)" "ac_trip_id c = t"
      "customer_code c = customer_code r" "\<not> completed c"
    by (auto simp add: near_codes_def list_incomplete_def)
  have "inj_on (\<lambda>c. (ac_trip_id c, customer_code c)) (set (assigned_customers d))"
    using assms(1) by (simp add: customer_keys_def distinct_map)
  then have "c = r"
    using c(1,2,3) assms(2,3) by (auto dest: inj_onD)
  then show False using c(4) assms(4) by simp
qed

lemma mark_codes_nth:
  assumes "i < length cs"
  shows "completed (mark_codes t S now cs ! i) =
     (completed (cs ! i) \<or> ac_trip_id (cs ! i) = t \<and> customer_code (cs ! i) \<in> S)"
  using assms by (auto simp add: mark_codes_def)

lemma mark_codes_keeps:
  assumes "i < length cs" "\<not> (ac_trip_id (cs ! i) = t \<and> customer_code (cs ! i) \<in> S)"
  shows "mark_codes t S now cs ! i = cs ! i"
  using assms by (auto simp add: mark_codes_def)

lemma handleLongStop_db_customers:
  assumes "the (fst (find_active_trips plate d)) = trip # rest"
  shows "assigned_customers (handleLongStop_db plate loc now d) =
     mark_codes (trip_id trip)
       (near_codes (snd loc, fst loc) (the (fst (list_incomplete (trip_id trip) d)))) now
       (assigned_customers d)"
  using assms
  by (simp add: handleLongStop_db_def check_db_customers handleLongStop_loop_db_customers)

lemma handleLongStop_db_no_trip:
  assumes "the (fst (find_active_trips plate d)) = []"
  shows "handleLongStop_db plate loc now d = d"
  using assms by (simp add: handleLongStop_db_def)

lemma processVehicleData_db_customers:
  assumes "Plate v \<noteq> []" "coords v = Some (lat, lng)"
    "the (fst (find_open_trips (Plate v) d)) = trip # rest"
    "actual_start_time trip \<noteq> None \<or> speed_positive v"
  shows "assigned_customers (processVehicleData_db v now d) =
     mark_codes (trip_id trip)
       (near_codes (lng, lat) (the (fst (list_incomplete (trip_id trip) d)))) now
       (assigned_customers d)"
proof -
  let ?row = "\<lparr>tc_trip_id = trip_id trip, tc_vehicle_plate = Plate v, tc_latitude = lat,
             tc_longitude = lng, tc_speed = speed_or_zero v, tc_timestamp = now\<rparr>"
  let ?d1 = "if actual_start_time trip = None
             then snd (set_actual_start (trip_id trip) now d) else d"
  let ?d2 = "snd (insert_coordinate ?row ?d1)"
  have same: "assigned_customers ?d2 = assigned_customers d"
    by (simp add: insert_coordinate_def set_actual_start_def)
  then have inc: "fst (list_incomplete (trip_id trip) ?d2) = fst (list_incomplete (trip_id trip) d)"
    by (simp add: list_incomplete_def)
  have "processVehicleData_db v now d =
      processVehicleData_loop_db (trip_id trip) (lng, lat) now
        (the (fst (list_incomplete (trip_id trip) ?d2))) ?d2"
    using assms by (auto simp add: processVehicleData_db_def Let_def)
  then show ?thesis
    by (simp only: processVehicleData_loop_db_customers inc same)
qed

lemma closest_fold:
  "closest cs cp (Some m) =
     Some (fold min (map (\<lambda>k. distance_km (tc_longitude k, tc_latitude k) cp) cs) m)"
  by (induction cs arbitrary: m) (auto simp add: Let_def min_def)

lemma closest_Min:
  assumes "cs \<noteq> []"
  shows "closest cs cp None =
     Some (Min ((\<lambda>k. distance_km (tc_longitude k, tc_latitude k) cp) ` set cs))"
proof -
  let ?dist = "\<lambda>k. distance_km (tc_longitude k, tc_latitude k) cp"
  obtain k rest where cs: "cs = k # rest" using assms by (cases cs) auto
  have "closest cs cp None = Some (fold min (map ?dist rest) (?dist k))"
    by (simp add: cs closest_fold)
  moreover have "Min (set (?dist k # map ?dist rest)) = fold min (map ?dist rest) (?dist k)"
    by (rule Min.set_eq_fold)
  ultimately show ?thesis by (simp add: cs)
qed

lemma would_complete_iff:
  assumes "coordinates \<noteq> []" "latitude c \<noteq> 0" "longitude c \<noteq> 0"
  shows "would_complete coordinates c =
     (Min ((\<lambda>k. distance_km (tc_longitude k, tc_latitude k) (longitude c, latitude c)) `
        set coordinates) \<le> 5)"
  using assms by (simp add: would_complete_def closest_Min)

section \<open>Trip completion under the store operations\<close>

lemma end_frame_refl: "end_frame t d d"
  by (simp add: end_frame_def)

lemma end_frame_trans: "end_frame t a b \<Longrightarrow> end_frame t b c \<Longrightarrow> end_frame t a c"
  by (simp add: end_frame_def)

lemma mark_completed_end_frame: "end_frame t d (snd (mark_completed u code now d))"
  by (simp add: end_frame_def mark_completed_def end_view_def completions_def count_list_snoc)

lemma insert_coordinate_end_frame: "end_frame t d (snd (insert_coordinate c d))"
  by (simp add: end_frame_def insert_coordinate_def end_view_def completions_def count_list_snoc)

lemma set_actual_start_end_frame: "end_frame t d (snd (set_actual_start u now d))"
  by (simp add: end_frame_def set_actual_start_def end_view_def completions_def count_list_snoc
      comp_def)

lemma handleLongStop_loop_db_end_frame: "end_frame t d (handleLongStop_loop_db u p now cs d)"
proof (induction cs arbitrary: d)
  case Nil
  show ?case by (simp add: end_frame_refl)
next
  case (Cons c cs)
  show ?case
    using Cons.IH mark_completed_end_frame end_frame_trans by fastforce
qed

lemma ended_iff: "ended t d = (\<exists>e. (t, Some e) \<in> set (end_view d))"
proof
  assume "ended t d"
  then obtain r e where r: "r \<in> set (route_plans d)" "trip_id r = t" "actual_end_time r = Some e"
    by (auto simp add: ended_def)
  then have "(t, Some e) \<in> set (end_view d)"
    by (auto simp add: end_view_def intro!: image_eqI[of _ _ r])
  then show "\<exists>e. (t, Some e) \<in> set (end_view d)" ..
next
  assume "\<exists>e. (t, Some e) \<in> set (end_view d)"
  then obtain e r where "r \<in> set (route_plans d)" "t = trip_id r" "Some e = actual_end_time r"
    by (auto simp add: end_view_def)
  then show "ended t d"
    unfolding ended_def by (intro bexI[of _ r]) (simp_all add: eq_commute[of "Some e"])
qed

lemma end_frame_facts:
  assumes "end_frame t d d'"
  shows "map trip_id (route_plans d') = map trip_id (route_plans d)"
    and "ended u d' = ended u d"
    and "completions t d' = completions t d"
proof -
  have ev: "end_view d' = end_view d" using assms by (simp add: end_frame_def)
  have "map fst (end_view d') = map fst (end_view d)" using ev by simp
  then show "map trip_id (route_plans d') = map trip_id (route_plans d)"
    by (simp add: end_view_def comp_def)
  show "ended u d' = ended u d" by (simp add: ended_iff ev)
  show "completions t d' = completions t d" using assms by (simp add: end_frame_def)
qed

lemma complete_trip_facts:
  shows "completions t (snd (complete_trip u now d)) = completions t d + (if t = u then 1 else 0)"
    and "map trip_id (route_plans (snd (complete_trip u now d))) = map trip_id (route_plans d)"
    and "ended t d \<Longrightarrow> ended t (snd (complete_trip u now d))"
    and "u \<in> trip_id ` set (route_plans d) \<Longrightarrow> ended u (snd (complete_trip u now d))"
proof -
  show "completions t (snd (complete_trip u now d)) = completions t d + (if t = u then 1 else 0)"
    by (simp add: complete_trip_def completions_def count_list_snoc)
  show "map trip_id (route_plans (snd (complete_trip u now d))) = map trip_id (route_plans d)"
    by (simp add: complete_trip_def comp_def)
  show "ended t (snd (complete_trip u now d))" if "ended t d"
  proof -
    from that obtain r where r: "r \<in> set (route_plans d)" "trip_id r = t"
        "actual_end_time r \<noteq> None"
      by (auto simp add: ended_def)
    let ?r = "if trip_id r = u then r\<lparr>actual_end_time := Some now\<rparr> else r"
    have "?r \<in> set (route_plans (snd (complete_trip u now d)))"
      using r(1) by (auto simp add: complete_trip_def intro!: image_eqI[of _ _ r])
    moreover have "trip_id ?r = t" "actual_end_time ?r \<noteq> None"
      using r by auto
    ultimately show ?thesis unfolding ended_def by (intro bexI[of _ ?r]) simp_all
  qed
  show "ended u (snd (complete_trip u now d))" if "u \<in> trip_id ` set (route_plans d)"
  proof -
    from that obtain r where r: "r \<in> set (route_plans d)" "trip_id r = u" by auto
    have "r\<lparr>actual_end_time := Some now\<rparr> \<in> set (route_plans (snd (complete_trip u now d)))"
      using r by (auto simp add: complete_trip_def intro!: image_eqI[of _ _ r])
    then show ?thesis
      unfolding ended_def using r(2)
      by (intro bexI[of _ "r\<lparr>actual_end_time := Some now\<rparr>"]) simp_all
  qed
qed

lemma mark_completed_keys: "customer_keys (snd (mark_completed u code now d)) = customer_keys d"
  by (simp add: customer_keys_def mark_completed_def comp_def)

lemma row_survives_mark:
  assumes "c \<in> set (assigned_customers d)" "customer_code c \<noteq> code"
  shows "c \<in> set (assigned_customers (snd (mark_completed u code now d)))"
  using assms by (auto simp add: mark_completed_def intro!: image_eqI[of _ _ c])

lemma check_db_unfinished:
  assumes "c \<in> set (assigned_customers d)" "ac_trip_id c = u" "\<not> completed c"
  shows "check_db u now d = d"
proof -
  have "\<not> all_stops_completed u d"
    using assms by (auto simp add: all_stops_completed_def list_all_iff Let_def)
  then show ?thesis by (simp add: check_db_def)
qed

lemma check_db_shape: "check_db u now d = d \<or> check_db u now d = snd (complete_trip u now d)"
  by (simp add: check_db_def)

lemma processVehicleData_loop_db_shape:
  assumes "distinct (customer_keys d)" "distinct (map customer_code cs)"
    "\<forall>c\<in>set cs. c \<in> set (assigned_customers d) \<and> ac_trip_id c = u \<and> \<not> completed c"
  shows "end_frame t d (processVehicleData_loop_db u p now cs d) \<or>
     (\<exists>d1. end_frame t d d1 \<and>
        processVehicleData_loop_db u p now cs d = snd (complete_trip u now d1))"
  using assms
proof (induction cs arbitrary: d)
  case Nil
  show ?case by (simp add: end_frame_refl)
next
  case (Cons c cs)
  have rest: "distinct (map customer_code cs)"
    "\<forall>c\<in>set cs. c \<in> set (assigned_customers d) \<and> ac_trip_id c = u \<and> \<not> completed c"
    using Cons.prems(2,3) by simp_all
  show ?case
  proof (cases "distance_km p (longitude c, latitude c) \<le> 1")
    case False
    then show ?thesis
      using Cons.IH[OF Cons.prems(1) rest] by simp
  next
    case True
    let ?d1 = "snd (mark_completed u (customer_code c) now d)"
    have marked: "end_frame t d ?d1" by (rule mark_completed_end_frame)
    show ?thesis
    proof (cases cs)
      case Nil
      have "processVehicleData_loop_db u p now (c # cs) d = check_db u now ?d1"
        using True Nil by simp
      then show ?thesis
        using check_db_shape[of u now ?d1] marked by auto
    next
      case (Cons c' cs')
      have others: "\<forall>x\<in>set cs. x \<in> set (assigned_customers ?d1) \<and> ac_trip_id x = u \<and> \<not> completed x"
      proof
        fix x assume x: "x \<in> set cs"
        then have "customer_code x \<noteq> customer_code c"
          using Cons.prems(2) by (auto simp add: image_iff)
        then show "x \<in> set (assigned_customers ?d1) \<and> ac_trip_id x = u \<and> \<not> completed x"
          using rest(2) x by (simp add: row_survives_mark)
      qed
      have "c' \<in> set cs" using Cons by simp
      then have "check_db u now ?d1 = ?d1"
        using others check_db_unfinished[of c' ?d1 u now] by blast
      then have eq: "processVehicleData_loop_db u p now (c # cs) d =
          processVehicleData_loop_db u p now cs ?d1"
        using True by simp
      have keys: "distinct (customer_keys ?d1)"
        using Cons.prems(1) by (simp add: mark_completed_keys)
      from Cons.IH[OF keys rest(1) others] show ?thesis
        unfolding eq using marked end_frame_trans by blast
    qed
  qed
qed

lemma incomplete_rows:
  assumes "distinct (customer_keys d)"
  shows "distinct (map customer_code (the (fst (list_incomplete u d))))"
    and "\<forall>c\<in>set (the (fst (list_incomplete u d))).
           c \<in> set (assigned_customers d) \<and> ac_trip_id c = u \<and> \<not> completed c"
proof -
  let ?cs = "filter (\<lambda>c. ac_trip_id c = u \<and> \<not> completed c) (assigned_customers d)"
  have "distinct (map (\<lambda>c. (ac_trip_id c, customer_code c)) ?cs)"
    using assms unfolding customer_keys_def by (rule distinct_map_filter)
  moreover have "map (\<lambda>c. (ac_trip_id c, customer_code c)) ?cs =
      map (Pair u) (map customer_code ?cs)"
    by (induction "assigned_customers d") auto
  ultimately have "distinct (map (Pair u) (map customer_code ?cs))" by simp
  then have "distinct (map customer_code ?cs)"
    by (auto simp add: distinct_map dest: inj_on_imageI2)
  then show "distinct (map customer_code (the (fst (list_incomplete u d))))"
    by (simp add: list_incomplete_def)
  show "\<forall>c\<in>set (the (fst (list_incomplete u d))).
           c \<in> set (assigned_customers d) \<and> ac_trip_id c = u \<and> \<not> completed c"
    by (simp add: list_incomplete_def)
qed

lemma processVehicleData_db_unfold:
  "processVehicleData_db v now d = d \<or>
   (\<exists>lat lng trip rest d0.
      the (fst (find_open_trips (Plate v) d)) = trip # rest \<and>
      assigned_customers d0 = assigned_customers d \<and>
      (\<forall>t. end_frame t d d0) \<and>
      (\<forall>u code. stop_writes u code d0 = stop_writes u code d) \<and>
      processVehicleData_db v now d =
        processVehicleData_loop_db (trip_id trip) (lng, lat) now
          (the (fst (list_incomplete (trip_id trip) d0))) d0)"
proof (cases "Plate v = [] \<or> coords v = None")
  case True
  then show ?thesis by (auto simp add: processVehicleData_db_def)
next
  case False
  then obtain lat lng where c: "Plate v \<noteq> []" "coords v = Some (lat, lng)" by auto
  show ?thesis
  proof (cases "the (fst (find_open_trips (Plate v) d))")
    case Nil
    then show ?thesis using c by (simp add: processVehicleData_db_def)
  next
    case (Cons trip rest)
    show ?thesis
    proof (cases "actual_start_time trip = None \<and> \<not> speed_positive v")
      case True
      then show ?thesis using c Cons by (simp add: processVehicleData_db_def)
    next
      case False
      let ?row = "\<lparr>tc_trip_id = trip_id trip, tc_vehicle_plate = Plate v, tc_latitude = lat,
             tc_longitude = lng, tc_speed = speed_or_zero v, tc_timestamp = now\<rparr>"
      let ?d1 = "if actual_start_time trip = None
             then snd (set_actual_start (trip_id trip) now d) else d"
      let ?d0 = "snd (insert_coordinate ?row ?d1)"
      have eq: "processVehicleData_db v now d =
          processVehicleData_loop_db (trip_id trip) (lng, lat) now
            (the (fst (list_incomplete (trip_id trip) ?d0))) ?d0"
        using c Cons False by (auto simp add: processVehicleData_db_def Let_def)
      have same: "assigned_customers ?d0 = assigned_customers d"
        by (simp add: insert_coordinate_def set_actual_start_def)
      have "end_frame t d ?d1" for t
        by (simp add: end_frame_refl set_actual_start_end_frame)
      then have frame: "end_frame t d ?d0" for t
        using insert_coordinate_end_frame end_frame_trans by blast
      have writes: "stop_writes u code ?d0 = stop_writes u code d" for u code
        by (simp add: stop_writes_def insert_coordinate_def set_actual_start_def)
      show ?thesis
        using Cons same frame writes eq by blast
    qed
  qed
qed

lemma evaluate_db_shape:
  assumes "distinct (customer_keys d)"
  shows "end_frame t d (evaluate_db e now d) \<or>
     (\<exists>r d1. r \<in> set (route_plans d) \<and> actual_end_time r = None \<and> end_frame t d d1 \<and>
        evaluate_db e now d = snd (complete_trip (trip_id r) now d1))"
proof (cases e)
  case (LongStop plate loc)
  show ?thesis
  proof (cases "the (fst (find_active_trips plate d))")
    case Nil
    then show ?thesis
      using LongStop by (simp add: evaluate_db_def handleLongStop_db_no_trip end_frame_refl)
  next
    case (Cons trip rest)
    let ?d1 = "handleLongStop_loop_db (trip_id trip) (snd loc, fst loc) now
               (the (fst (list_incomplete (trip_id trip) d))) d"
    have "filter (\<lambda>r. vehicle_plate r = plate \<and> actual_start_time r \<noteq> None \<and>
        actual_end_time r = None) (route_plans d) = trip # rest"
      using Cons by (simp add: find_active_trips_def)
    from first_of_filter[OF this]
    have r: "trip \<in> set (route_plans d)" "actual_end_time trip = None"
      by simp_all
    have eq: "evaluate_db e now d = check_db (trip_id trip) now ?d1"
      using LongStop Cons by (simp add: evaluate_db_def handleLongStop_db_def)
    have "end_frame t d ?d1" by (rule handleLongStop_loop_db_end_frame)
    then show ?thesis
      unfolding eq using check_db_shape[of "trip_id trip" now ?d1] r by metis
  qed
next
  case (Telemetry v)
  from processVehicleData_db_unfold[of v now d] show ?thesis
  proof
    assume "processVehicleData_db v now d = d"
    then show ?thesis using Telemetry by (simp add: evaluate_db_def end_frame_refl)
  next
    assume "\<exists>lat lng trip rest d0.
      the (fst (find_open_trips (Plate v) d)) = trip # rest \<and>
      assigned_customers d0 = assigned_customers d \<and>
      (\<forall>t. end_frame t d d0) \<and>
      (\<forall>u code. stop_writes u code d0 = stop_writes u code d) \<and>
      processVehicleData_db v now d =
        processVehicleData_loop_db (trip_id trip) (lng, lat) now
          (the (fst (list_incomplete (trip_id trip) d0))) d0"
    then obtain lat lng trip rest d0 where
      trips: "the (fst (find_open_trips (Plate v) d)) = trip # rest"
      and same: "assigned_customers d0 = assigned_customers d"
      and frame: "end_frame t d d0"
      and eq: "processVehicleData_db v now d =
        processVehicleData_loop_db (trip_id trip) (lng, lat) now
          (the (fst (list_incomplete (trip_id trip) d0))) d0"
      by blast
    have "filter (\<lambda>r. vehicle_plate r = Plate v \<and> actual_end_time r = None)
        (route_plans d) = trip # rest"
      using trips by (simp add: find_open_trips_def)
    from first_of_filter[OF this]
    have r: "trip \<in> set (route_plans d)" "actual_end_time trip = None"
      by simp_all
    have keys: "distinct (customer_keys d0)"
      using assms same by (simp add: customer_keys_def)
    let ?d' = "processVehicleData_loop_db (trip_id trip) (lng, lat) now
          (the (fst (list_incomplete (trip_id trip) d0))) d0"
    have e: "evaluate_db e now d = ?d'"
      using Telemetry eq by (simp add: evaluate_db_def)
    have "end_frame t d0 ?d' \<or>
       (\<exists>d1. end_frame t d0 d1 \<and> ?d' = snd (complete_trip (trip_id trip) now d1))"
      by (rule processVehicleData_loop_db_shape[OF keys incomplete_rows[OF keys]])
    then show ?thesis
    proof
      assume "end_frame t d0 ?d'"
      then have "end_frame t d ?d'" using frame end_frame_trans by blast
      then show ?thesis unfolding e by simp
    next
      assume "\<exists>d1. end_frame t d0 d1 \<and> ?d' = snd (complete_trip (trip_id trip) now d1)"
      then obtain d1 where d1: "end_frame t d0 d1"
        "?d' = snd (complete_trip (trip_id trip) now d1)" by blast
      have "end_frame t d d1" using frame d1(1) end_frame_trans by blast
      then show ?thesis unfolding e using r d1(2) by blast
    qed
  qed
qed

lemma ended_not_open:
  assumes "distinct (map trip_id (route_plans d))" "ended t d"
    "r \<in> set (route_plans d)" "actual_end_time r = None"
  shows "t \<noteq> trip_id r"
proof
  assume same: "t = trip_id r"
  from assms(2) obtain r' where r': "r' \<in> set (route_plans d)" "trip_id r' = t"
      "actual_end_time r' \<noteq> None"
    by (auto simp add: ended_def)
  have "inj_on trip_id (set (route_plans d))"
    using assms(1) by (simp add: distinct_map)
  then have "r' = r"
    using r' assms(3) same by (auto dest: inj_onD)
  then show False using r'(3) assms(4) by simp
qed

lemma evaluate_ok:
  assumes "fuse w = None"
  shows "db (evaluate e w) = evaluate_db e (clock w) (db w)"
    and "fuse (evaluate e w) = None"
    and "clock (evaluate e w) = clock w"
  using assms
  by (cases e; simp add: evaluate_def evaluate_db_def processVehicleData_ok handleLongStop_ok)+

lemma evaluate_db_completions:
  assumes "distinct (map trip_id (route_plans d))" "distinct (customer_keys d)"
  shows "map trip_id (route_plans (evaluate_db e now d)) = map trip_id (route_plans d)"
    and "completions t (evaluate_db e now d) \<le> completions t d + 1"
    and "ended t d \<Longrightarrow> completions t (evaluate_db e now d) = completions t d"
    and "ended t d \<Longrightarrow> ended t (evaluate_db e now d)"
    and "completions t (evaluate_db e now d) \<noteq> completions t d \<Longrightarrow>
         ended t (evaluate_db e now d)"
proof -
  let ?d' = "evaluate_db e now d"
  have "map trip_id (route_plans ?d') = map trip_id (route_plans d) \<and>
        completions t ?d' \<le> completions t d + 1 \<and>
        (ended t d \<longrightarrow> completions t ?d' = completions t d \<and> ended t ?d') \<and>
        (completions t ?d' \<noteq> completions t d \<longrightarrow> ended t ?d')"
    using evaluate_db_shape[OF assms(2), of t e now]
  proof
    assume frame: "end_frame t d ?d'"
    show ?thesis
      using end_frame_facts[OF frame] by simp
  next
    assume "\<exists>r d1. r \<in> set (route_plans d) \<and> actual_end_time r = None \<and> end_frame t d d1 \<and>
        ?d' = snd (complete_trip (trip_id r) now d1)"
    then obtain r d1 where r: "r \<in> set (route_plans d)" "actual_end_time r = None"
      and frame: "end_frame t d d1"
      and eq: "?d' = snd (complete_trip (trip_id r) now d1)"
      by blast
    note f = end_frame_facts[OF frame]
    have ids: "map trip_id (route_plans ?d') = map trip_id (route_plans d)"
      unfolding eq by (simp add: complete_trip_facts(2) f(1))
    have count: "completions t ?d' = completions t d + (if t = trip_id r then 1 else 0)"
      unfolding eq by (simp add: complete_trip_facts(1) f(3))
    have keep: "completions t ?d' = completions t d \<and> ended t ?d'" if "ended t d"
    proof -
      have "t \<noteq> trip_id r" using ended_not_open[OF assms(1) that r] .
      moreover have "ended t d1" using that by (simp add: f(2))
      then have "ended t ?d'" unfolding eq by (rule complete_trip_facts(3))
      ultimately show ?thesis using count by simp
    qed
    have fire: "ended t ?d'" if "completions t ?d' \<noteq> completions t d"
    proof -
      have t: "t = trip_id r" using that count by (simp split: if_splits)
      have "trip_id r \<in> set (map trip_id (route_plans d1))"
        unfolding f(1) using r(1) by simp
      then have "trip_id r \<in> trip_id ` set (route_plans d1)" by simp
      then show ?thesis unfolding eq t by (rule complete_trip_facts(4))
    qed
    show ?thesis using ids count keep fire by simp
  qed
  then show "map trip_id (route_plans ?d') = map trip_id (route_plans d)"
    and "completions t ?d' \<le> completions t d + 1"
    and "ended t d \<Longrightarrow> completions t ?d' = completions t d"
    and "ended t d \<Longrightarrow> ended t ?d'"
    and "completions t ?d' \<noteq> completions t d \<Longrightarrow> ended t ?d'"
    by simp_all
qed

lemma evaluate_db_customers:
  "assigned_customers (evaluate_db e now d) = assigned_customers d \<or>
   (\<exists>u p. assigned_customers (evaluate_db e now d) =
      mark_codes u (near_codes p (the (fst (list_incomplete u d)))) now (assigned_customers d))"
proof (cases e)
  case (LongStop plate loc)
  show ?thesis
  proof (cases "the (fst (find_active_trips plate d))")
    case Nil
    then show ?thesis using LongStop by (simp add: evaluate_db_def handleLongStop_db_no_trip)
  next
    case (Cons trip rest)
    show ?thesis
      unfolding LongStop evaluate_db_def evaluation.case handleLongStop_db_customers[OF Cons]
      by blast
  qed
next
  case (Telemetry v)
  show ?thesis
  proof (cases "Plate v = [] \<or> coords v = None")
    case True
    then show ?thesis using Telemetry by (auto simp add: evaluate_db_def processVehicleData_db_def)
  next
    case False
    then obtain lat lng where c: "Plate v \<noteq> []" "coords v = Some (lat, lng)" by auto
    show ?thesis
    proof (cases "the (fst (find_open_trips (Plate v) d))")
      case Nil
      then show ?thesis
        using c Telemetry by (simp add: evaluate_db_def processVehicleData_db_def)
    next
      case (Cons trip rest)
      show ?thesis
      proof (cases "actual_start_time trip = None \<and> \<not> speed_positive v")
        case True
        then show ?thesis
          using c Cons Telemetry by (simp add: evaluate_db_def processVehicleData_db_def)
      next
        case False
        then have "actual_start_time trip \<noteq> None \<or> speed_positive v" by auto
        note processVehicleData_db_customers[OF c Cons this]
        then show ?thesis
          unfolding Telemetry evaluate_db_def evaluation.case by blast
      qed
    qed
  qed
qed

lemma mark_codes_keys:
  "map (\<lambda>c. (ac_trip_id c, customer_code c)) (mark_codes u S now cs) =
   map (\<lambda>c. (ac_trip_id c, customer_code c)) cs"
  by (induction cs) (simp_all add: mark_codes_def)

lemma evaluate_db_keeps:
  assumes "distinct (customer_keys d)"
  shows "customer_keys (evaluate_db e now d) = customer_keys d"
    and "length (assigned_customers (evaluate_db e now d)) = length (assigned_customers d)"
    and "i < length (assigned_customers d) \<Longrightarrow> completed (assigned_customers d ! i) \<Longrightarrow>
         assigned_customers (evaluate_db e now d) ! i = assigned_customers d ! i"
    and "i < length (assigned_customers d) \<Longrightarrow> completed (assigned_customers d ! i) \<Longrightarrow>
         completed (assigned_customers (evaluate_db e now d) ! i)"
proof -
  let ?cs = "assigned_customers d" and ?cs' = "assigned_customers (evaluate_db e now d)"
  have "customer_keys (evaluate_db e now d) = customer_keys d \<and> length ?cs' = length ?cs \<and>
        (i < length ?cs \<longrightarrow> completed (?cs ! i) \<longrightarrow> ?cs' ! i = ?cs ! i)"
    using evaluate_db_customers[of e now d]
  proof
    assume "?cs' = ?cs"
    then show ?thesis by (simp add: customer_keys_def)
  next
    assume "\<exists>u p. ?cs' = mark_codes u (near_codes p (the (fst (list_incomplete u d)))) now ?cs"
    then obtain u p where
      eq: "?cs' = mark_codes u (near_codes p (the (fst (list_incomplete u d)))) now ?cs"
      by blast
    have keys: "customer_keys (evaluate_db e now d) = customer_keys d"
      by (simp add: customer_keys_def eq mark_codes_keys)
    have len: "length ?cs' = length ?cs"
      by (simp add: eq mark_codes_def)
    have "?cs' ! i = ?cs ! i" if i: "i < length ?cs" and fin: "completed (?cs ! i)"
    proof -
      have "?cs ! i \<in> set ?cs" using i by simp
      then have "\<not> (ac_trip_id (?cs ! i) = u \<and>
          customer_code (?cs ! i) \<in> near_codes p (the (fst (list_incomplete u d))))"
        using completed_row_not_near[OF assms _ _ fin, of u p] by blast
      then show ?thesis unfolding eq using i by (rule mark_codes_keeps[rotated])
    qed
    then show ?thesis using keys len by simp
  qed
  then show "customer_keys (evaluate_db e now d) = customer_keys d"
    and "length ?cs' = length ?cs"
    and "i < length ?cs \<Longrightarrow> completed (?cs ! i) \<Longrightarrow> ?cs' ! i = ?cs ! i"
    and "i < length ?cs \<Longrightarrow> completed (?cs ! i) \<Longrightarrow> completed (?cs' ! i)"
    by simp_all
qed

lemma evaluations_db:
  assumes "fuse w = None"
  shows "db (evaluations es w) = foldl (\<lambda>d e. evaluate_db e (clock w) d) (db w) es"
  using assms
proof (induction es arbitrary: w)
  case Nil
  show ?case by simp
next
  case (Cons e es)
  note ok = evaluate_ok[OF Cons.prems, of e]
  show ?case
    using Cons.IH[OF ok(2)] by (simp add: ok)
qed

lemma filter_distinct_le_one:
  assumes "distinct (map f xs)"
  shows "length (filter (\<lambda>x. f x = a \<and> P x) xs) \<le> 1"
  using assms
proof (induction xs)
  case Nil
  show ?case by simp
next
  case (Cons x xs)
  show ?case
  proof (cases "f x = a")
    case True
    then have "a \<notin> f ` set xs" using Cons.prems by simp
    then have "\<forall>y\<in>set xs. f y \<noteq> a" by blast
    then have "filter (\<lambda>x. f x = a \<and> P x) xs = []" by (simp add: filter_empty_conv)
    then show ?thesis by simp
  next
    case False
    then show ?thesis using Cons by simp
  qed
qed

lemma mark_completed_stop_writes:
  "stop_writes u code (snd (mark_completed t c now d)) =
     stop_writes u code d + (if u = t \<and> code = c then 1 else 0)"
  by (simp add: stop_writes_def mark_completed_def count_list_snoc)

lemma check_db_stop_writes: "stop_writes u code (check_db t now d) = stop_writes u code d"
  by (simp add: stop_writes_def check_db_def complete_trip_def count_list_snoc)

lemma handleLongStop_loop_db_stop_writes:
  "stop_writes u code (handleLongStop_loop_db t p now cs d) =
     stop_writes u code d +
       (if u = t
        then length (filter (\<lambda>c. customer_code c = code \<and>
               distance_km p (longitude c, latitude c) \<le> 1) cs)
        else 0)"
proof (induction cs arbitrary: d)
  case Nil
  show ?case by simp
next
  case (Cons c cs)
  show ?case
    by (cases "distance_km p (longitude c, latitude c) \<le> 1")
      (simp_all add: Cons.IH mark_completed_stop_writes)
qed

lemma processVehicleData_loop_db_stop_writes:
  "stop_writes u code (processVehicleData_loop_db t p now cs d) =
     stop_writes u code d +
       (if u = t
        then length (filter (\<lambda>c. customer_code c = code \<and>
               distance_km p (longitude c, latitude c) \<le> 1) cs)
        else 0)"
proof (induction cs arbitrary: d)
  case Nil
  show ?case by simp
next
  case (Cons c cs)
  show ?case
    by (cases "distance_km p (longitude c, latitude c) \<le> 1")
      (simp_all add: Cons.IH mark_completed_stop_writes check_db_stop_writes)
qed

lemma mark_codes_stop_completed:
  assumes "c \<in> set cs" "ac_trip_id c = u" "customer_code c = code"
    and "completed c \<or> (u = t \<and> code \<in> S)"
  shows "\<exists>c'\<in>set (mark_codes t S now cs).
           ac_trip_id c' = u \<and> customer_code c' = code \<and> completed c'"
proof -
  let ?f = "\<lambda>c. if ac_trip_id c = t \<and> customer_code c \<in> S
               then c\<lparr>completed := True, completed_at := Some now\<rparr> else c"
  have "?f c \<in> set (mark_codes t S now cs)"
    using assms(1) by (simp add: mark_codes_def)
  moreover have "ac_trip_id (?f c) = u" "customer_code (?f c) = code" "completed (?f c)"
    using assms(2,3,4) by auto
  ultimately show ?thesis by blast
qed

text \<open>One evaluation of trip \<open>t\<close> at the point \<open>p\<close>, from the store \<open>d0\<close>.\<close>

lemma marked_stop_writes:
  assumes keys: "distinct (customer_keys d0)"
    and writes: "stop_writes u code d' = stop_writes u code d0 +
       (if u = t
        then length (filter (\<lambda>c. customer_code c = code \<and>
               distance_km p (longitude c, latitude c) \<le> 1) (the (fst (list_incomplete t d0))))
        else 0)"
    and customers: "assigned_customers d' =
       mark_codes t (near_codes p (the (fst (list_incomplete t d0)))) now (assigned_customers d0)"
  shows "stop_writes u code d' \<le> stop_writes u code d0 + 1"
    and "stop_completed u code d0 \<Longrightarrow> stop_writes u code d' = stop_writes u code d0"
    and "stop_writes u code d' \<noteq> stop_writes u code d0 \<Longrightarrow> stop_completed u code d'"
    and "stop_completed u code d0 \<Longrightarrow> stop_completed u code d'"
proof -
  let ?cs = "the (fst (list_incomplete t d0))"
  let ?near = "filter (\<lambda>c. customer_code c = code \<and>
               distance_km p (longitude c, latitude c) \<le> 1) ?cs"
  note rows = incomplete_rows[OF keys, of t]
  have "length ?near \<le> 1"
    using rows(1) by (rule filter_distinct_le_one)
  then show "stop_writes u code d' \<le> stop_writes u code d0 + 1"
    using writes by simp
  show "stop_writes u code d' = stop_writes u code d0" if "stop_completed u code d0"
  proof (cases "u = t")
    case False
    then show ?thesis using writes by simp
  next
    case True
    from that obtain r where r: "r \<in> set (assigned_customers d0)" "ac_trip_id r = t"
        "customer_code r = code" "completed r"
      unfolding True by (auto simp add: stop_completed_def)
    have inj: "inj_on (\<lambda>c. (ac_trip_id c, customer_code c)) (set (assigned_customers d0))"
      using keys by (simp add: customer_keys_def distinct_map)
    have "customer_code c \<noteq> code" if "c \<in> set ?cs" for c
    proof
      assume same: "customer_code c = code"
      have c: "c \<in> set (assigned_customers d0)" "ac_trip_id c = t" "\<not> completed c"
        using rows(2) that by auto
      then have "c = r" using inj r(1,2,3) same by (auto dest: inj_onD)
      then show False using c(3) r(4) by simp
    qed
    then have "?near = []" by (auto simp add: filter_empty_conv)
    then show ?thesis using writes by simp
  qed
  show "stop_completed u code d'" if "stop_writes u code d' \<noteq> stop_writes u code d0"
  proof -
    have t: "u = t" and "?near \<noteq> []"
      using that writes by (auto split: if_splits)
    then obtain c where c: "c \<in> set ?cs" "customer_code c = code"
        "distance_km p (longitude c, latitude c) \<le> 1"
      by (auto simp add: filter_empty_conv)
    have row: "c \<in> set (assigned_customers d0)" "ac_trip_id c = u"
      using rows(2) c(1) t by auto
    have "code \<in> near_codes p ?cs"
      using c by (auto simp add: near_codes_def)
    then show ?thesis
      unfolding stop_completed_def customers
      using mark_codes_stop_completed[OF row c(2), of t "near_codes p ?cs" now] t by simp
  qed
  show "stop_completed u code d'" if "stop_completed u code d0"
  proof -
    from that obtain r where r: "r \<in> set (assigned_customers d0)" "ac_trip_id r = u"
        "customer_code r = code" "completed r"
      by (auto simp add: stop_completed_def)
    show ?thesis
      unfolding stop_completed_def customers
      using mark_codes_stop_completed[OF r(1,2,3), of t "near_codes p ?cs" now] r(4) by simp
  qed
qed

lemma evaluate_db_stop_writes:
  assumes "distinct (customer_keys d)"
  shows "stop_writes u code (evaluate_db e now d) \<le> stop_writes u code d + 1"
    and "stop_completed u code d \<Longrightarrow>
         stop_writes u code (evaluate_db e now d) = stop_writes u code d"
    and "stop_writes u code (evaluate_db e now d) \<noteq> stop_writes u code d \<Longrightarrow>
         stop_completed u code (evaluate_db e now d)"
    and "stop_completed u code d \<Longrightarrow> stop_completed u code (evaluate_db e now d)"
proof -
  let ?d' = "evaluate_db e now d"
  have "stop_writes u code ?d' \<le> stop_writes u code d + 1 \<and>
      (stop_completed u code d \<longrightarrow> stop_writes u code ?d' = stop_writes u code d) \<and>
      (stop_writes u code ?d' \<noteq> stop_writes u code d \<longrightarrow> stop_completed u code ?d') \<and>
      (stop_completed u code d \<longrightarrow> stop_completed u code ?d')"
  proof (cases e)
    case (LongStop plate loc)
    show ?thesis
    proof (cases "the (fst (find_active_trips plate d))")
      case Nil
      then have "?d' = d"
        using LongStop by (simp add: evaluate_db_def handleLongStop_db_no_trip)
      then show ?thesis by simp
    next
      case (Cons trip rest)
      have eq: "?d' = check_db (trip_id trip) now
          (handleLongStop_loop_db (trip_id trip) (snd loc, fst loc) now
             (the (fst (list_incomplete (trip_id trip) d))) d)"
        using LongStop Cons by (simp add: evaluate_db_def handleLongStop_db_def)
      have writes: "stop_writes u code ?d' = stop_writes u code d +
         (if u = trip_id trip
          then length (filter (\<lambda>c. customer_code c = code \<and>
                 distance_km (snd loc, fst loc) (longitude c, latitude c) \<le> 1)
                 (the (fst (list_incomplete (trip_id trip) d))))
          else 0)"
        unfolding eq by (simp only: check_db_stop_writes handleLongStop_loop_db_stop_writes)
      have customers: "assigned_customers ?d' =
         mark_codes (trip_id trip)
           (near_codes (snd loc, fst loc) (the (fst (list_incomplete (trip_id trip) d)))) now
           (assigned_customers d)"
        unfolding eq by (simp only: check_db_customers handleLongStop_loop_db_customers)
      show ?thesis
        using marked_stop_writes[OF assms writes customers] by blast
    qed
  next
    case (Telemetry v)
    from processVehicleData_db_unfold[of v now d] show ?thesis
    proof
      assume "processVehicleData_db v now d = d"
      then have "?d' = d" using Telemetry by (simp add: evaluate_db_def)
      then show ?thesis by simp
    next
      assume "\<exists>lat lng trip rest d0.
        the (fst (find_open_trips (Plate v) d)) = trip # rest \<and>
        assigned_customers d0 = assigned_customers d \<and>
        (\<forall>t. end_frame t d d0) \<and>
        (\<forall>u code. stop_writes u code d0 = stop_writes u code d) \<and>
        processVehicleData_db v now d =
          processVehicleData_loop_db (trip_id trip) (lng, lat) now
            (the (fst (list_incomplete (trip_id trip) d0))) d0"
      then obtain lat lng trip rest d0 where all:
        "the (fst (find_open_trips (Plate v) d)) = trip # rest \<and>
         assigned_customers d0 = assigned_customers d \<and>
         (\<forall>t. end_frame t d d0) \<and>
         (\<forall>u code. stop_writes u code d0 = stop_writes u code d) \<and>
         processVehicleData_db v now d =
           processVehicleData_loop_db (trip_id trip) (lng, lat) now
             (the (fst (list_incomplete (trip_id trip) d0))) d0"
        by (elim exE)
      have same: "assigned_customers d0 = assigned_customers d"
        and before: "stop_writes u code d0 = stop_writes u code d"
        and eq: "processVehicleData_db v now d =
          processVehicleData_loop_db (trip_id trip) (lng, lat) now
            (the (fst (list_incomplete (trip_id trip) d0))) d0"
        using all by simp_all
      have e: "?d' = processVehicleData_loop_db (trip_id trip) (lng, lat) now
            (the (fst (list_incomplete (trip_id trip) d0))) d0"
        using Telemetry eq by (simp add: evaluate_db_def)
      have keys: "distinct (customer_keys d0)"
        using assms same by (simp add: customer_keys_def)
      have done_same: "stop_completed u code d0 = stop_completed u code d"
        using same by (simp add: stop_completed_def)
      have writes: "stop_writes u code ?d' = stop_writes u code d0 +
         (if u = trip_id trip
          then length (filter (\<lambda>c. customer_code c = code \<and>
                 distance_km (lng, lat) (longitude c, latitude c) \<le> 1)
                 (the (fst (list_incomplete (trip_id trip) d0))))
          else 0)"
        unfolding e by (simp only: processVehicleData_loop_db_stop_writes)
      have customers: "assigned_customers ?d' =
         mark_codes (trip_id trip)
           (near_codes (lng, lat) (the (fst (list_incomplete (trip_id trip) d0)))) now
           (assigned_customers d0)"
        unfolding e by (simp only: processVehicleData_loop_db_customers)
      show ?thesis
        using marked_stop_writes[OF keys writes customers] before done_same by simp
    qed
  qed
  then show "stop_writes u code ?d' \<le> stop_writes u code d + 1"
    and "stop_completed u code d \<Longrightarrow> stop_writes u code ?d' = stop_writes u code d"
    and "stop_writes u code ?d' \<noteq> stop_writes u code d \<Longrightarrow> stop_completed u code ?d'"
    and "stop_completed u code d \<Longrightarrow> stop_completed u code ?d'"
    by simp_all
qed

lemma evaluations_stop_writes:
  assumes "fuse w = None" "distinct (customer_keys (db w))"
  shows "stop_writes u code (db (evaluations es w)) \<le> stop_writes u code (db w) + 1 \<and>
     (stop_completed u code (db w) \<longrightarrow>
        stop_writes u code (db (evaluations es w)) = stop_writes u code (db w))"
  using assms
proof (induction es arbitrary: w)
  case Nil
  show ?case by simp
next
  case (Cons e es)
  let ?w1 = "evaluate e w"
  note ok = evaluate_ok[OF Cons.prems(1), of e]
  have step: "stop_writes u code (db ?w1) \<le> stop_writes u code (db w) + 1"
    "stop_completed u code (db w) \<Longrightarrow> stop_writes u code (db ?w1) = stop_writes u code (db w)"
    "stop_writes u code (db ?w1) \<noteq> stop_writes u code (db w) \<Longrightarrow> stop_completed u code (db ?w1)"
    "stop_completed u code (db w) \<Longrightarrow> stop_completed u code (db ?w1)"
    unfolding ok(1) by (rule evaluate_db_stop_writes[OF Cons.prems(2)]; assumption)+
  have keys: "distinct (customer_keys (db ?w1))"
    unfolding ok(1) using evaluate_db_keeps(1)[OF Cons.prems(2)] Cons.prems(2) by simp
  note ih = Cons.IH[OF ok(2) keys]
  show ?case
  proof (cases "stop_completed u code (db w)")
    case True
    then show ?thesis using ih step(2,4) by simp
  next
    case False
    show ?thesis
    proof (cases "stop_writes u code (db ?w1) = stop_writes u code (db w)")
      case True
      then show ?thesis using ih False by simp
    next
      case differs: False
      then have "stop_completed u code (db ?w1)" by (rule step(3))
      then have "stop_writes u code (db (evaluations es ?w1)) = stop_writes u code (db ?w1)"
        using ih by simp
      then show ?thesis using step(1) False by simp
    qed
  qed
qed

section \<open>Evaluating the examples\<close>

lemmas example_data = ex_world_def ex_store_def ex_sample_def ex_planned_def ex_two_stops_def
  ex_customer_def ex_sample_at_def ex_visited_def ex_finished_def

lemmas handler_programs = on_message_task_def track_stop_task_def processVehicleData_task_def
  log_and_evaluate_def handleLongStop_task_def checkTripCompletion_task_def
  set_processed_task_def log_error_def resume_def boot_def world.defs node.defs

lemmas store_operations = find_open_trips_def find_active_trips_def list_incomplete_def
  select_completed_def set_actual_start_def insert_coordinate_def mark_completed_def
  complete_trip_def coords_def speed_positive_def speed_or_zero_def

lemma distance_km_quarter_turn_back: "6371 < distance_km (a, - 45) (a, 45)"
proof -
  have "haversine_a (a, - 45) (a, 45) = haversine_a (a, 45) (a, - 45)"
    by (simp add: haversine_a_def degreesToRadians_def power2_eq_square)
  then have "distance_km (a, - 45) (a, 45) = distance_km (a, 45) (a, - 45)"
    by (simp add: distance_km_def)
  then show ?thesis using distance_km_quarter_turn[of a] by simp
qed

lemma example_stops_near:
  "distance_km (10, 45) (10, 45) \<le> 1" "distance_km (10, - 45) (10, - 45) \<le> 1"
  by (simp_all add: distance_km_self)

lemma example_stops_far:
  "\<not> distance_km (10, 45) (10, - 45) \<le> 1" "\<not> distance_km (10, - 45) (10, 45) \<le> 1"
  using distance_km_quarter_turn[of 10] distance_km_quarter_turn_back[of 10] by simp_all

section \<open>The trip registry\<close>

lemma startTripMonitoring_keeps:
  "activeTrips w t = Some p \<Longrightarrow> activeTrips (startTripMonitoring t' p' w) t = Some p"
  by (auto simp add: startTripMonitoring_def)

lemma resume_monitoring_keeps:
  "activeTrips w t = Some p \<Longrightarrow> activeTrips (resume_monitoring ts w) t = Some p"
  by (induction ts arbitrary: w) (simp_all add: startTripMonitoring_keeps)

lemma on_open_keeps:
  "activeTrips w t = Some p \<Longrightarrow> activeTrips (on_open w) t = Some p"
  by (auto simp add: on_open_def initializeSubscriptions_def io_catch_def io_bind_def ext_call_def
      list_active_trips_def console_error_def io_return_def resume_monitoring_keeps
      split: option.splits nat.splits)

text \<open>
  C5, as stated, fails: the registry is a map from trip id to plate, and a trip-created
  notification is ignored only when its trip id is registered. Two trips of one plate
  are both registered.
\<close>

theorem registry_one_plate_two_trips:
  "activeTrips (on_notification (TripInserted ''T2'' ''BH47JSGP'')
      (on_notification (TripInserted ''T1'' ''BH47JSGP'') ex_world)) ''T1'' = Some ''BH47JSGP'' \<and>
   activeTrips (on_notification (TripInserted ''T2'' ''BH47JSGP'')
      (on_notification (TripInserted ''T1'' ''BH47JSGP'') ex_world)) ''T2'' = Some ''BH47JSGP''"
  by (simp add: on_notification_def startTripMonitoring_def ex_world_def)

text \<open>
  C5, amended. The registry holds one entry per trip id. A trip-created notification for
  a registered trip id is ignored and the registered plate is kept; for an unregistered
  trip id it adds the entry, whatever plates are registered. An entry is kept by
  start-up reconciliation, by a trip-created notification for any trip id, and by
  an update notification for another trip id. An update notification removes the entry of
  its own trip id when \<open>actual_end_time\<close> turns from unset to set, and changes nothing
  otherwise.
\<close>

theorem registry_keyed_by_trip_id:
  "(activeTrips w t = Some p \<longrightarrow>
      activeTrips (on_notification (TripInserted t p') w) = activeTrips w \<and>
      activeTrips (on_notification (TripInserted t' p) w) t = Some p \<and>
      activeTrips (on_open w) t = Some p \<and>
      (t' \<noteq> t \<longrightarrow> activeTrips (on_notification (TripUpdated t' old_end new_end) w) t = Some p)) \<and>
   (activeTrips w t = None \<longrightarrow>
      activeTrips (on_notification (TripInserted t p') w) = (activeTrips w)(t \<mapsto> p')) \<and>
   activeTrips (on_notification (TripUpdated t old_end new_end) w) =
      (if new_end \<noteq> None \<and> old_end = None then (activeTrips w)(t := None) else activeTrips w)"
  by (auto simp add: on_notification_def startTripMonitoring_def stopTripMonitoring_def
      on_open_keeps fun_upd_idem_iff)

theorem registry_keyed_by_trip_id_witness:
  "activeTrips (on_notification (TripInserted ''T1'' ''P2'')
      (on_notification (TripInserted ''T1'' ''P1'') ex_world)) ''T1'' = Some ''P1'' \<and>
   activeTrips (on_notification (TripUpdated ''T1'' None (Some 5))
      (on_notification (TripInserted ''T1'' ''P1'') ex_world)) ''T1'' = None \<and>
   activeTrips (on_open ex_world) ''T1'' = Some ''BH47JSGP''"
  using registry_keyed_by_trip_id [of "on_notification (TripInserted ''T1'' ''P1'') ex_world"
      "''T1''" "''P1''" "''P2''" "''T2''" None "Some 5"]
  by (simp add: on_notification_def startTripMonitoring_def stopTripMonitoring_def ex_world_def
      ex_store_def on_open_def initializeSubscriptions_def io_catch_def io_bind_def ext_call_def
      list_active_trips_def)

section \<open>Records without a usable LocTime\<close>

text \<open>
  C4, as stated, fails: the handler returns before \<open>processVehicleData\<close> is called, so
  the record is not forwarded to the coordinate log, and a missing \<open>LocTime\<close> is
  dropped without a message. The same record with a valid \<open>LocTime\<close> is logged.
\<close>

theorem invalid_LocTime_not_forwarded:
  "trip_coordinates (db (on_message (Parsed (ex_sample (Some 12) Invalid)) ex_world)) = [] \<and>
   console (on_message (Parsed (ex_sample (Some 12) Absent)) ex_world) = [] \<and>
   length (trip_coordinates
      (db (on_message (Parsed (ex_sample (Some 12) (Millis 0))) ex_world))) = 1"
  by (simp add: ex_sample_def ex_world_def ex_store_def on_message_def on_message_try_def
      io_catch_def io_bind_def cache_sample_def console_error_def io_return_def coords_def
      track_stop_def processVehicleData_def processVehicleData_try_def ext_call_def
      find_open_trips_def speed_positive_def io_now_def insert_coordinate_def list_incomplete_def
      speed_or_zero_def)

text \<open>
  C4, amended. A record whose \<open>LocTime\<close> is missing or does not parse only replaces the
  cached record of its plate: no stop interval is opened, updated or cleared, no long
  stop fires and nothing is written to the store, the coordinate log included. An error
  is reported when the coordinates are missing, or when they are present and
  \<open>LocTime\<close> does not parse; a record with coordinates and no \<open>LocTime\<close> is dropped
  silently.
\<close>

theorem invalid_LocTime_dropped:
  assumes "LocTime v = Absent \<or> LocTime v = Invalid"
  shows "on_message (Parsed v) w =
     w\<lparr>vehicleDataCache := (vehicleDataCache w)(Plate v \<mapsto> v),
       console := console w @
         (case coords v of
            None \<Rightarrow> [MissingCoordinates (Plate v)]
          | Some _ \<Rightarrow> if LocTime v = Invalid then [InvalidLocTime] else [])\<rparr>"
  using assms
  by (auto simp add: on_message_def on_message_try_def io_catch_def io_bind_def cache_sample_def
      console_error_def io_return_def split: option.splits)

theorem invalid_LocTime_dropped_witness:
  "LocTime (ex_sample (Some 0) Invalid) = Invalid \<and>
   vehicleStops (on_message (Parsed (ex_sample (Some 0) Invalid)) ex_world) ''BH47JSGP'' = None \<and>
   console (on_message (Parsed (ex_sample (Some 0) Invalid)) ex_world) = [InvalidLocTime] \<and>
   db (on_message (Parsed (ex_sample (Some 0) Invalid)) ex_world) = ex_store"
  using invalid_LocTime_dropped [of "ex_sample (Some 0) Invalid" ex_world]
  by (simp add: ex_sample_def ex_world_def coords_def)

section \<open>Vehicles without an open trip\<close>

lemma store_kept_preorder: "preorder_rel (store_kept p)"
  by (simp add: preorder_rel_def store_kept_def)

lemma handleLongStop_store_kept: "io_rel (store_kept p) (handleLongStop p loc)"
  by (auto simp add: io_rel_def store_kept_def no_open_trip_def handleLongStop_def io_bind_def
      note_long_stop_def ext_call_def find_active_trips_def io_return_def filter_empty_conv
      split: option.splits nat.splits list.splits)

lemma processVehicleData_store_kept: "io_rel (store_kept (Plate v)) (processVehicleData v)"
  by (auto simp add: io_rel_def store_kept_def no_open_trip_def processVehicleData_def
      processVehicleData_try_def io_catch_def io_bind_def console_error_def io_throw_def
      ext_call_def find_open_trips_def io_return_def filter_empty_conv
      split: option.splits nat.splits list.splits)

lemma track_stop_store_kept: "io_rel (store_kept (Plate v)) (track_stop v lat lng t)"
proof -
  have flag: "io_rel (store_kept (Plate v)) (set_processed (Plate v))"
    by (simp add: io_rel_def store_kept_def set_processed_def split: option.splits)
  have fire: "io_rel (store_kept (Plate v))
      (io_bind (handleLongStop (Plate v) loc) (\<lambda>_. set_processed (Plate v)))" for loc
    by (intro io_rel_bind store_kept_preorder handleLongStop_store_kept flag)
  show ?thesis
    unfolding io_rel_def
  proof
    fix w
    show "store_kept (Plate v) w (snd (track_stop v lat lng t w))"
      using fire
      by (auto simp add: track_stop_def Let_def io_rel_def store_kept_def split: option.splits)
  qed
qed

lemma on_message_try_store_kept: "io_rel (store_kept (Plate v)) (on_message_try (Parsed v))"
  unfolding on_message_try_def message.case
  apply (intro io_rel_bind store_kept_preorder)
   apply (simp add: io_rel_def store_kept_def cache_sample_def)
  apply (auto split: option.splits loc_time.splits
      intro!: io_rel_bind store_kept_preorder io_rel_return track_stop_store_kept
        processVehicleData_store_kept)
   apply (simp_all add: io_rel_def store_kept_def console_error_def)
  done

text \<open>
  C6, as stated, fails: stop tracking does not consult the trips. With no trip at all in
  the store, a zero-speed record opens an interval, and five minutes later the long-stop
  handler is called.
\<close>

theorem unmonitored_vehicle_is_tracked:
  "vehicleStops (on_message (Parsed (ex_sample (Some 0) (Millis 0))) ex_idle) ''BH47JSGP'' =
     Some \<lparr>stopStart = 0, location = (- 26.144, 28.0436), lastLocTime = 0, processed = False\<rparr> \<and>
   long_stops (ingest [Parsed (ex_sample (Some 0) (Millis 0)),
                       Parsed (ex_sample (Some 0) (Millis 300000))] ex_idle) =
     [(''BH47JSGP'', (- 26.144, 28.0436))]"
  by (simp add: ex_sample_def ex_idle_def ex_world_def ex_store_def on_message_def
      on_message_try_def io_catch_def io_bind_def cache_sample_def console_error_def io_return_def
      coords_def track_stop_def processVehicleData_def processVehicleData_try_def ext_call_def
      find_open_trips_def find_active_trips_def handleLongStop_def note_long_stop_def
      set_processed_def)

text \<open>
  C6, amended. For a record whose plate has no trip with \<open>actual_end_time\<close> unset, the
  handler writes nothing to the store: no customer stop is marked, \<open>complete_trip\<close> is
  not called, no trip is started and no coordinate is logged. Stop tracking is not
  part of the guarantee: it runs for every plate.
\<close>

theorem unmonitored_store_untouched:
  assumes "\<forall>r\<in>set (route_plans (db w)). vehicle_plate r = Plate v \<longrightarrow> actual_end_time r \<noteq> None"
  shows "db (on_message (Parsed v) w) = db w"
proof -
  have "io_rel (store_kept (Plate v))
      (io_catch (on_message_try (Parsed v)) (\<lambda>e. console_error (ErrorParsing e)))"
    by (intro io_rel_catch store_kept_preorder on_message_try_store_kept)
      (simp add: io_rel_def store_kept_def console_error_def)
  then show ?thesis
    using assms by (simp add: io_rel_def on_message_def store_kept_def no_open_trip_def)
qed

theorem unmonitored_store_untouched_witness:
  "db (on_message (Parsed (ex_sample (Some 40) (Millis 0)))
        (ex_world\<lparr>db := ex_store\<lparr>assigned_customers := [ex_customer ''C1'' (- 26.144) 28.0436 False],
           route_plans := [\<lparr>trip_id = ''T1'', vehicle_plate = ''BH47JSGP'',
             actual_start_time = Some 0, actual_end_time = Some 9\<rparr>]\<rparr>\<rparr>)) =
     ex_store\<lparr>assigned_customers := [ex_customer ''C1'' (- 26.144) 28.0436 False],
        route_plans := [\<lparr>trip_id = ''T1'', vehicle_plate = ''BH47JSGP'',
          actual_start_time = Some 0, actual_end_time = Some 9\<rparr>]\<rparr>"
  using unmonitored_store_untouched [of
      "ex_world\<lparr>db := ex_store\<lparr>assigned_customers := [ex_customer ''C1'' (- 26.144) 28.0436 False],
           route_plans := [\<lparr>trip_id = ''T1'', vehicle_plate = ''BH47JSGP'',
             actual_start_time = Some 0, actual_end_time = Some 9\<rparr>]\<rparr>\<rparr>"
      "ex_sample (Some 40) (Millis 0)"]
  by (simp add: ex_world_def ex_store_def ex_sample_def)

section \<open>Two long stops for one interval\<close>

text \<open>
  C1: exactly one call of the long-stop handler for a stop interval, the \<open>processed\<close>
  flag guarding against a second. This fails when handlers overlap: the message handler
  sets the flag only after \<open>await handleLongStop\<close> has returned. In
  \<open>ex_long_stop_race\<close> the record of 301 s arrives while the call made for the record
  of 300 s waits for the store: its handler finds the flag unset and calls
  \<open>handleLongStop\<close> again. Both handlers run to their end; \<open>handleLongStop\<close> has
  been called twice for the one interval, which is still the plate's entry and is
  flagged. Handled in turn, the same three records give one call.
\<close>

theorem long_stop_fires_twice:
  "long_stops (process (schedule ex_long_stop_race (boot ex_world))) =
     [(''BH47JSGP'', (- 26.144, 28.0436)), (''BH47JSGP'', (- 26.144, 28.0436))] \<and>
   vehicleStops (process (schedule ex_long_stop_race (boot ex_world))) ''BH47JSGP'' =
     Some \<lparr>stopStart = 0, location = (- 26.144, 28.0436), lastLocTime = 301000,
           processed = True\<rparr> \<and>
   waiting (schedule ex_long_stop_race (boot ex_world)) = [] \<and>
   long_stops (process (schedule (in_turn ex_standing (process (boot ex_world)))
     (boot ex_world))) = [(''BH47JSGP'', (- 26.144, 28.0436))]"
  by (simp add: ex_long_stop_race_def ex_standing_def example_data handler_programs
      store_operations numeral_eq_Suc)

section \<open>Two starts of one trip\<close>

text \<open>
  C2: the start time of a trip is written exactly once and never changed once the trip
  is active. This fails when handlers overlap: \<open>processVehicleData\<close> reads
  \<open>actual_start_time\<close>, waits, and then updates the row selected by \<open>trip_id\<close>
  alone, without the condition \<open>actual_start_time IS NULL\<close> of the implementation
  guide. In \<open>ex_start_race\<close> two handlers have read the planned trip before the store
  serves either update. At the end of the schedule the trip is active with the start
  time of the first handler, written once; the update of the second handler is still to
  be served. Serving it writes the start time a second time and replaces the stored one;
  both handlers then log their coordinate and run to their end. Handled in turn, the
  same two records write the start time once.
\<close>

theorem trip_start_written_twice:
  "start_times ''T1'' (db (process (schedule ex_start_race (boot ex_planned)))) = [Some 1000] \<and>
   start_writes ''T1'' (db (process (schedule ex_start_race (boot ex_planned)))) = 1 \<and>
   map fst (waiting (schedule ex_start_race (boot ex_planned))) =
     [LogCoordinate \<lparr>tc_trip_id = ''T1'', tc_vehicle_plate = ''BH47JSGP'',
        tc_latitude = - 26.144, tc_longitude = 28.0436, tc_speed = 40, tc_timestamp = 1500\<rparr>,
      StartTrip ''T1'' 1500] \<and>
   start_times ''T1'' (db (process
     (schedule (ex_start_race @ Answer 1 # replicate 4 (Answer 0)) (boot ex_planned)))) =
     [Some 1500] \<and>
   start_writes ''T1'' (db (process
     (schedule (ex_start_race @ Answer 1 # replicate 4 (Answer 0)) (boot ex_planned)))) = 2 \<and>
   waiting (schedule (ex_start_race @ Answer 1 # replicate 4 (Answer 0)) (boot ex_planned)) = [] \<and>
   start_writes ''T1'' (db (process (schedule (in_turn ex_moving (process (boot ex_planned)))
     (boot ex_planned)))) = 1"
  by (simp add: ex_start_race_def ex_moving_def example_data handler_programs store_operations
      start_times_def start_view_def start_writes_def numeral_eq_Suc)

section \<open>A failed write\<close>

text \<open>
  C7: a failed write is logged. This fails: the store's client answers a failed call
  with an \<open>error\<close> field, and \<open>processVehicleData\<close> reads the answer of no write.
  In \<open>ex_failed_insert\<close> the insert of the coordinate fails: the handler goes on to
  the customer stops and runs to its end, the coordinate is not stored and nothing is
  written with \<open>console.error\<close>. In \<open>ex_failed_start\<close> the update of the start time
  fails: the handler goes on as if the trip had started and logs the coordinate, the
  trip is still planned, and again nothing is written with \<open>console.error\<close>. The
  registry keeps its entry.
\<close>

theorem failed_write_not_logged:
  "console (process (schedule ex_failed_insert (boot ex_monitored))) = [] \<and>
   trip_coordinates (db (process (schedule ex_failed_insert (boot ex_monitored)))) = [] \<and>
   activeTrips (process (schedule ex_failed_insert (boot ex_monitored))) =
     [''T1'' \<mapsto> ''BH47JSGP''] \<and>
   waiting (schedule ex_failed_insert (boot ex_monitored)) = [] \<and>
   console (process (schedule ex_failed_start (boot ex_planned))) = [] \<and>
   start_times ''T1'' (db (process (schedule ex_failed_start (boot ex_planned)))) = [None] \<and>
   trip_coordinates (db (process (schedule ex_failed_start (boot ex_planned)))) =
     [\<lparr>tc_trip_id = ''T1'', tc_vehicle_plate = ''BH47JSGP'', tc_latitude = - 26.144,
       tc_longitude = 28.0436, tc_speed = 40, tc_timestamp = 1000\<rparr>] \<and>
   waiting (schedule ex_failed_start (boot ex_planned)) = []"
  by (simp add: ex_failed_insert_def ex_failed_start_def ex_monitored_def
      startTripMonitoring_def example_data handler_programs store_operations
      start_times_def start_view_def)

section \<open>The completion radius\<close>

text \<open>
  C8. On a store whose calls do not fail and whose customer rows have unique
  (trip, code) keys, take a customer row that is not completed. When
  \<open>processVehicleData\<close> handles a record of the row's trip (the first open trip of the
  plate, started or starting with this record), the row is completed afterwards exactly
  when its distance from the record's position is at most 1 km. When \<open>handleLongStop\<close>
  runs for the row's trip (the first active trip of the plate), the row is completed
  afterwards exactly when its distance from the interval's location is at most 1 km. The
  offline check counts a customer that has coordinates exactly when the least distance
  from the logged positions is at most 5 km.
\<close>

theorem completion_radius:
  assumes "fuse w = None" "distinct (customer_keys (db w))"
    and "i < length (assigned_customers (db w))" "\<not> completed (assigned_customers (db w) ! i)"
  shows
    "(Plate v \<noteq> [] \<and> coords v = Some (lat, lng) \<and>
      the (fst (find_open_trips (Plate v) (db w))) = trip # rest \<and>
      (actual_start_time trip \<noteq> None \<or> speed_positive v) \<and>
      ac_trip_id (assigned_customers (db w) ! i) = trip_id trip \<longrightarrow>
        completed (assigned_customers (db (snd (processVehicleData v w))) ! i) =
          (distance_km (lng, lat)
             (longitude (assigned_customers (db w) ! i),
              latitude (assigned_customers (db w) ! i)) \<le> 1)) \<and>
     (the (fst (find_active_trips plate (db w))) = trip # rest \<and>
      ac_trip_id (assigned_customers (db w) ! i) = trip_id trip \<longrightarrow>
        completed (assigned_customers (db (snd (handleLongStop plate loc w))) ! i) =
          (distance_km (snd loc, fst loc)
             (longitude (assigned_customers (db w) ! i),
              latitude (assigned_customers (db w) ! i)) \<le> 1)) \<and>
     (coordinates \<noteq> [] \<and> latitude c \<noteq> 0 \<and> longitude c \<noteq> 0 \<longrightarrow>
        would_complete coordinates c =
          (Min ((\<lambda>k. distance_km (tc_longitude k, tc_latitude k) (longitude c, latitude c)) `
             set coordinates) \<le> 5))"
proof (intro conjI impI)
  let ?r = "assigned_customers (db w) ! i"
  have row: "?r \<in> set (assigned_customers (db w))"
    using assms(3) by simp
  {
    assume a: "Plate v \<noteq> [] \<and> coords v = Some (lat, lng) \<and>
      the (fst (find_open_trips (Plate v) (db w))) = trip # rest \<and>
      (actual_start_time trip \<noteq> None \<or> speed_positive v) \<and>
      ac_trip_id ?r = trip_id trip"
    then have "assigned_customers (db (snd (processVehicleData v w))) =
        mark_codes (trip_id trip)
          (near_codes (lng, lat) (the (fst (list_incomplete (trip_id trip) (db w))))) (clock w)
          (assigned_customers (db w))"
      using processVehicleData_db_customers[of v lat lng "db w" trip rest "clock w"]
      by (simp add: processVehicleData_ok[OF assms(1)])
    then show "completed (assigned_customers (db (snd (processVehicleData v w))) ! i) =
          (distance_km (lng, lat) (longitude ?r, latitude ?r) \<le> 1)"
      using a assms(3,4) near_codes_row[OF assms(2) row _ assms(4), of "trip_id trip" "(lng, lat)"]
      by (simp add: mark_codes_nth)
  }
  {
    assume a: "the (fst (find_active_trips plate (db w))) = trip # rest \<and>
      ac_trip_id ?r = trip_id trip"
    then have "assigned_customers (db (snd (handleLongStop plate loc w))) =
        mark_codes (trip_id trip)
          (near_codes (snd loc, fst loc) (the (fst (list_incomplete (trip_id trip) (db w)))))
          (clock w) (assigned_customers (db w))"
      using handleLongStop_db_customers[of plate "db w" trip rest loc "clock w"]
      by (simp add: handleLongStop_ok[OF assms(1)])
    then show "completed (assigned_customers (db (snd (handleLongStop plate loc w))) ! i) =
          (distance_km (snd loc, fst loc) (longitude ?r, latitude ?r) \<le> 1)"
      using a assms(3,4)
        near_codes_row[OF assms(2) row _ assms(4), of "trip_id trip" "(snd loc, fst loc)"]
      by (simp add: mark_codes_nth)
  }
  {
    assume "coordinates \<noteq> [] \<and> latitude c \<noteq> 0 \<and> longitude c \<noteq> 0"
    then show "would_complete coordinates c =
          (Min ((\<lambda>k. distance_km (tc_longitude k, tc_latitude k) (longitude c, latitude c)) `
             set coordinates) \<le> 5)"
      by (simp add: would_complete_iff)
  }
qed

theorem completion_radius_witness:
  "completed (assigned_customers (db (snd (processVehicleData (ex_sample_at 45 10 0)
      ex_two_stops))) ! 0) \<and>
   \<not> completed (assigned_customers (db (snd (processVehicleData (ex_sample_at 45 10 0)
      ex_two_stops))) ! 1) \<and>
   completed (assigned_customers (db (snd (handleLongStop ''BH47JSGP'' (45, 10)
      ex_two_stops))) ! 0) \<and>
   \<not> completed (assigned_customers (db (snd (handleLongStop ''BH47JSGP'' (45, 10)
      ex_two_stops))) ! 1) \<and>
   would_complete [ex_logged 45 10] (ex_customer ''NORTH'' 45 10 False) \<and>
   \<not> would_complete [ex_logged 45 10] (ex_customer ''SOUTH'' (- 45) 10 False)"
proof -
  let ?trip = "\<lparr>trip_id = ''T1'', vehicle_plate = ''BH47JSGP'', actual_start_time = Some 0,
      actual_end_time = None\<rparr>"
  have healthy: "fuse ex_two_stops = None"
    and keys: "distinct (customer_keys (db ex_two_stops))"
    and rows: "assigned_customers (db ex_two_stops) =
      [ex_customer ''NORTH'' 45 10 False, ex_customer ''SOUTH'' (- 45) 10 False]"
    and open_trips: "the (fst (find_open_trips ''BH47JSGP'' (db ex_two_stops))) = [?trip]"
    and active_trips: "the (fst (find_active_trips ''BH47JSGP'' (db ex_two_stops))) = [?trip]"
    by (simp_all add: ex_two_stops_def ex_world_def ex_store_def ex_customer_def
        customer_keys_def find_open_trips_def find_active_trips_def)
  have sample: "Plate (ex_sample_at 45 10 0) = ''BH47JSGP''"
    "coords (ex_sample_at 45 10 0) = Some (45, 10)"
    by (simp_all add: ex_sample_at_def coords_def)
  have here: "distance_km (10, 45) (10, 45) \<le> 1" "distance_km (10, 45) (10, 45) \<le> 5"
    by (simp_all add: distance_km_self)
  have far: "\<not> distance_km (10, 45) (10, - 45) \<le> 1" "\<not> distance_km (10, 45) (10, - 45) \<le> 5"
    using distance_km_quarter_turn[of 10] by simp_all
  have north: "0 < length (assigned_customers (db ex_two_stops))"
    "\<not> completed (assigned_customers (db ex_two_stops) ! 0)"
    "ac_trip_id (assigned_customers (db ex_two_stops) ! 0) = ''T1''"
    "longitude (assigned_customers (db ex_two_stops) ! 0) = 10"
    "latitude (assigned_customers (db ex_two_stops) ! 0) = 45"
    by (simp_all add: rows ex_customer_def)
  have south: "Suc 0 < length (assigned_customers (db ex_two_stops))"
    "\<not> completed (assigned_customers (db ex_two_stops) ! Suc 0)"
    "ac_trip_id (assigned_customers (db ex_two_stops) ! Suc 0) = ''T1''"
    "longitude (assigned_customers (db ex_two_stops) ! Suc 0) = 10"
    "latitude (assigned_customers (db ex_two_stops) ! Suc 0) = - 45"
    by (simp_all add: rows ex_customer_def)
  note at_north = completion_radius [OF healthy keys north(1,2),
      of "ex_sample_at 45 10 0" 45 10 ?trip "[]" "''BH47JSGP''" "(45, 10)" "[ex_logged 45 10]"
        "ex_customer ''NORTH'' 45 10 False"]
  note at_south = completion_radius [OF healthy keys south(1,2),
      of "ex_sample_at 45 10 0" 45 10 ?trip "[]" "''BH47JSGP''" "(45, 10)" "[ex_logged 45 10]"
        "ex_customer ''SOUTH'' (- 45) 10 False"]
  have logged: "tc_longitude (ex_logged 45 10) = 10" "tc_latitude (ex_logged 45 10) = 45"
    "longitude (ex_customer code lat lng flag) = lng"
    "latitude (ex_customer code lat lng flag) = lat" for code lat lng flag
    by (simp_all add: ex_logged_def ex_customer_def)
  show ?thesis
    using at_north at_south
    by (simp add: sample open_trips active_trips north south here far logged)
qed

section \<open>The spec's example positions\<close>

lemma example_distances:
  "distance_km (28.0436, - 26.144) (28.0446, - 26.145) \<le> 1 / 4"
  "distance_km (28.0436, - 26.144) (28.0437, - 26.1441) \<le> 1 / 40"
proof -
  have "distance_km (28.0436, - 26.144) (28.0446, - 26.145) \<le> 250 * (1 / 1000)"
    by (rule distance_km_near) simp_all
  then show "distance_km (28.0436, - 26.144) (28.0446, - 26.145) \<le> 1 / 4"
    by simp
  have "distance_km (28.0436, - 26.144) (28.0437, - 26.1441) \<le> 250 * (1 / 10000)"
    by (rule distance_km_near) simp_all
  then show "distance_km (28.0436, - 26.144) (28.0437, - 26.1441) \<le> 1 / 40"
    by simp
qed

lemma example_marks:
  "map completed (assigned_customers (db (snd (processVehicleData (ex_sample (Some 0) (Millis 0))
      ex_spec_stops)))) = [True, True]"
proof -
  let ?trip = "\<lparr>trip_id = ''T1'', vehicle_plate = ''BH47JSGP'', actual_start_time = Some 0,
      actual_end_time = None\<rparr>"
  let ?stops = "[ex_customer ''TEST_CUST_002'' (- 26.145) 28.0446 False,
        ex_customer ''TEST_CUST_003'' (- 26.1441) 28.0437 False]"
  have healthy: "fuse ex_spec_stops = None"
    and rows: "assigned_customers (db ex_spec_stops) = ?stops"
    and open_trips: "the (fst (find_open_trips ''BH47JSGP'' (db ex_spec_stops))) = [?trip]"
    and incomplete: "the (fst (list_incomplete ''T1'' (db ex_spec_stops))) = ?stops"
    by (simp_all add: ex_spec_stops_def ex_world_def ex_store_def ex_customer_def
        find_open_trips_def list_incomplete_def)
  have sample: "Plate (ex_sample (Some 0) (Millis 0)) = ''BH47JSGP''"
    "coords (ex_sample (Some 0) (Millis 0)) = Some (- 26.144, 28.0436)"
    by (simp_all add: ex_sample_def coords_def)
  have first: "distance_km (28.0436, - 26.144) (28.0446, - 26.145) \<le> 1"
    using example_distances(1) by simp
  have second: "distance_km (28.0436, - 26.144) (28.0437, - 26.1441) \<le> 1"
    using example_distances(2) by simp
  have near: "near_codes (28.0436, - 26.144) ?stops = {''TEST_CUST_002'', ''TEST_CUST_003''}"
    using first second by (simp add: near_codes_Cons ex_customer_def) (simp add: near_codes_def)
  have "assigned_customers (db (snd (processVehicleData (ex_sample (Some 0) (Millis 0))
      ex_spec_stops))) =
      mark_codes ''T1'' (near_codes (28.0436, - 26.144) ?stops) (clock ex_spec_stops) ?stops"
    using processVehicleData_db_customers[of "ex_sample (Some 0) (Millis 0)" "- 26.144" "28.0436"
        "db ex_spec_stops" ?trip "[]" "clock ex_spec_stops"]
    by (simp add: processVehicleData_ok[OF healthy] sample open_trips incomplete rows)
  then show ?thesis
    unfolding near by (simp add: mark_codes_def ex_customer_def)
qed

text \<open>
  C9, as stated, fails: from the vehicle at (-26.1440, 28.0436) the stop at
  (-26.1450, 28.0446) is at most a quarter of a kilometre away, not about 1.4 km, and
  \<open>processVehicleData\<close> marks it completed.
\<close>

theorem example_stop_is_completed:
  "distance_km (28.0436, - 26.144) (28.0446, - 26.145) \<le> 1 / 4 \<and>
   completed (hd (assigned_customers (db (snd (processVehicleData
      (ex_sample (Some 0) (Millis 0)) ex_spec_stops)))))"
proof -
  have "completed (hd (assigned_customers (db (snd (processVehicleData
      (ex_sample (Some 0) (Millis 0)) ex_spec_stops))))) =
    hd (map completed (assigned_customers (db (snd (processVehicleData
      (ex_sample (Some 0) (Millis 0)) ex_spec_stops)))))"
    using example_marks by (intro hd_map[symmetric]) auto
  then show ?thesis
    using example_distances(1) example_marks by simp
qed

text \<open>
  C9, amended. For the vehicle at (-26.1440, 28.0436) and the radius of 1.0 km, the
  great-circle distance to the stop at (-26.1450, 28.0446) is at most 0.25 km and the
  distance to the stop at (-26.1441, 28.0437) is at most 0.025 km; both are within the
  radius, and the evaluation marks both stops completed.
\<close>

theorem example_stops_within_radius:
  "distance_km (28.0436, - 26.144) (28.0446, - 26.145) \<le> 1 / 4 \<and>
   distance_km (28.0436, - 26.144) (28.0437, - 26.1441) \<le> 1 / 40 \<and>
   map completed (assigned_customers (db (snd (processVehicleData (ex_sample (Some 0) (Millis 0))
      ex_spec_stops)))) = [True, True] \<and>
   journal (db (snd (processVehicleData (ex_sample (Some 0) (Millis 0)) ex_spec_stops))) =
     [InsertCoordinate ''T1'', MarkCompleted ''T1'' ''TEST_CUST_002'',
      MarkCompleted ''T1'' ''TEST_CUST_003'', CompleteTrip ''T1'']"
proof -
  have first: "distance_km (28.0436, - 26.144) (28.0446, - 26.145) \<le> 1"
    using example_distances(1) by simp
  have second: "distance_km (28.0436, - 26.144) (28.0437, - 26.1441) \<le> 1"
    using example_distances(2) by simp
  have healthy: "fuse ex_spec_stops = None"
    by (simp add: ex_spec_stops_def ex_world_def)
  have "journal (processVehicleData_db (ex_sample (Some 0) (Millis 0)) (clock ex_spec_stops)
      (db ex_spec_stops)) =
     [InsertCoordinate ''T1'', MarkCompleted ''T1'' ''TEST_CUST_002'',
      MarkCompleted ''T1'' ''TEST_CUST_003'', CompleteTrip ''T1'']"
    using first second
    by (simp add: processVehicleData_db_def ex_sample_def coords_def ex_spec_stops_def
        ex_world_def ex_store_def ex_customer_def find_open_trips_def insert_coordinate_def
        list_incomplete_def mark_completed_def check_db_def all_stops_completed_def
        complete_trip_def Let_def)
  then show ?thesis
    using example_distances example_marks by (simp add: processVehicleData_ok[OF healthy])
qed

section \<open>Evaluating a position again\<close>

text \<open>
  C3, as stated, fails for evaluations that overlap. In \<open>ex_completion_race\<close> the two stops of
  a trip are completed by two evaluations, one record at each stop; each handler has
  marked its stop before either asks whether the trip is complete, both find every stop
  completed, and \<open>complete_trip\<close> is called twice. In \<open>ex_mark_race\<close> the same position
  is evaluated twice; both handlers have read the list of incomplete stops before either
  marks the stop: the stop is marked twice, and the second write changes the time of
  completion of a stop that is completed.
\<close>

theorem overlapping_evaluations_repeat:
  "completions ''T1'' (db (process (schedule ex_completion_race (boot ex_two_stops)))) = 2 \<and>
   map completed (assigned_customers (db (process
     (schedule ex_completion_race (boot ex_two_stops))))) = [True, True] \<and>
   waiting (schedule ex_completion_race (boot ex_two_stops)) = [] \<and>
   assigned_customers (db (process (schedule (butlast ex_mark_race) (boot ex_two_stops)))) ! 0 =
     (ex_customer ''NORTH'' 45 10 True)\<lparr>completed_at := Some 1000\<rparr> \<and>
   assigned_customers (db (process (schedule ex_mark_race (boot ex_two_stops)))) ! 0 =
     (ex_customer ''NORTH'' 45 10 True)\<lparr>completed_at := Some 1500\<rparr> \<and>
   stop_writes ''T1'' ''NORTH'' (db (process (schedule ex_mark_race (boot ex_two_stops)))) = 2"
  by (simp add: ex_completion_race_def ex_mark_race_def example_data handler_programs
      store_operations completions_def stop_writes_def example_stops_near example_stops_far)

text \<open>
  C3, amended: for evaluations that run one after the other, each to its end before the
  next, on a store whose calls do not fail, with unique trip ids and unique (trip, code)
  keys of the customer stops. Over any sequence of evaluations, from records or from
  long stops, \<open>complete_trip\<close> is called at most once for a trip, and not at all for a
  trip that has its end time; a stop is marked at most once, and not at all when it is
  completed; a stop that is completed is left as it is, with its time of completion.
\<close>

theorem evaluations_complete_once:
  assumes "fuse w = None" "distinct (map trip_id (route_plans (db w)))"
    "distinct (customer_keys (db w))"
  shows "completions t (db (evaluations es w)) \<le> completions t (db w) + 1 \<and>
     (ended t (db w) \<longrightarrow> completions t (db (evaluations es w)) = completions t (db w)) \<and>
     stop_writes t code (db (evaluations es w)) \<le> stop_writes t code (db w) + 1 \<and>
     (stop_completed t code (db w) \<longrightarrow>
        stop_writes t code (db (evaluations es w)) = stop_writes t code (db w)) \<and>
     (\<forall>i < length (assigned_customers (db w)). completed (assigned_customers (db w) ! i) \<longrightarrow>
        assigned_customers (db (evaluations es w)) ! i = assigned_customers (db w) ! i)"
proof -
  have trips: "completions t (db (evaluations es w)) \<le> completions t (db w) + 1 \<and>
     (ended t (db w) \<longrightarrow> completions t (db (evaluations es w)) = completions t (db w)) \<and>
     (\<forall>i < length (assigned_customers (db w)). completed (assigned_customers (db w) ! i) \<longrightarrow>
        assigned_customers (db (evaluations es w)) ! i = assigned_customers (db w) ! i)"
    using assms
  proof (induction es arbitrary: w)
    case Nil
    show ?case by simp
  next
    case (Cons e es)
    let ?w1 = "evaluate e w"
    note ok = evaluate_ok[OF Cons.prems(1), of e]
    have step: "map trip_id (route_plans (db ?w1)) = map trip_id (route_plans (db w))"
      "completions t (db ?w1) \<le> completions t (db w) + 1"
      "ended t (db w) \<Longrightarrow> completions t (db ?w1) = completions t (db w)"
      "ended t (db w) \<Longrightarrow> ended t (db ?w1)"
      "completions t (db ?w1) \<noteq> completions t (db w) \<Longrightarrow> ended t (db ?w1)"
      unfolding ok(1) by (rule evaluate_db_completions[OF Cons.prems(2,3)]; assumption)+
    have keep: "customer_keys (db ?w1) = customer_keys (db w)"
      "length (assigned_customers (db ?w1)) = length (assigned_customers (db w))"
      "\<And>i. i < length (assigned_customers (db w)) \<Longrightarrow> completed (assigned_customers (db w) ! i) \<Longrightarrow>
           assigned_customers (db ?w1) ! i = assigned_customers (db w) ! i"
      "\<And>i. i < length (assigned_customers (db w)) \<Longrightarrow> completed (assigned_customers (db w) ! i) \<Longrightarrow>
           completed (assigned_customers (db ?w1) ! i)"
      unfolding ok(1) by (rule evaluate_db_keeps[OF Cons.prems(3)]; assumption)+
    have ids: "distinct (map trip_id (route_plans (db ?w1)))"
      using step(1) Cons.prems(2) by simp
    have keys: "distinct (customer_keys (db ?w1))"
      using keep(1) Cons.prems(3) by simp
    note ih = Cons.IH[OF ok(2) ids keys]
    have count: "completions t (db (evaluations (e # es) w)) \<le> completions t (db w) + 1"
    proof (cases "completions t (db ?w1) = completions t (db w)")
      case True
      then show ?thesis using ih by simp
    next
      case False
      then have "ended t (db ?w1)" by (rule step(5))
      then have "completions t (db (evaluations es ?w1)) = completions t (db ?w1)"
        using ih by simp
      then show ?thesis using step(2) by simp
    qed
    have closed: "completions t (db (evaluations (e # es) w)) = completions t (db w)"
      if "ended t (db w)"
      using ih step(3)[OF that] step(4)[OF that] by simp
    have rows: "assigned_customers (db (evaluations (e # es) w)) ! i =
        assigned_customers (db w) ! i"
      if "i < length (assigned_customers (db w))" "completed (assigned_customers (db w) ! i)" for i
    proof -
      have "i < length (assigned_customers (db ?w1))" using that(1) keep(2) by simp
      moreover have "completed (assigned_customers (db ?w1) ! i)" using keep(4)[OF that] .
      ultimately have "assigned_customers (db (evaluations es ?w1)) ! i =
          assigned_customers (db ?w1) ! i"
        using ih by simp
      then show ?thesis using keep(3)[OF that] by simp
    qed
    show ?case using count closed rows by blast
  qed
  show ?thesis
    using trips evaluations_stop_writes[OF assms(1,3), of t code es] by blast
qed

theorem evaluations_complete_once_witness:
  "completions ''T1'' (db (evaluations ex_evaluations ex_two_stops)) = 1 \<and>
   stop_writes ''T1'' ''NORTH'' (db (evaluations ex_evaluations ex_two_stops)) = 1 \<and>
   completions ''T1'' (db (evaluations ex_evaluations ex_finished)) = 0 \<and>
   stop_writes ''T1'' ''NORTH'' (db (evaluations ex_evaluations ex_visited)) = 0 \<and>
   assigned_customers (db (evaluations ex_evaluations ex_visited)) ! 0 =
     (ex_customer ''NORTH'' 45 10 True)\<lparr>completed_at := Some 500\<rparr>"
proof -
  have two_stops: "fuse ex_two_stops = None"
    "distinct (map trip_id (route_plans (db ex_two_stops)))"
    "distinct (customer_keys (db ex_two_stops))"
    "completions ''T1'' (db ex_two_stops) = 0"
    "stop_writes ''T1'' ''NORTH'' (db ex_two_stops) = 0"
    "clock ex_two_stops = 1000"
    by (simp_all add: example_data customer_keys_def completions_def stop_writes_def)
  have finished: "fuse ex_finished = None"
    "distinct (map trip_id (route_plans (db ex_finished)))"
    "distinct (customer_keys (db ex_finished))"
    "completions ''T1'' (db ex_finished) = 0"
    "ended ''T1'' (db ex_finished)"
    by (simp_all add: example_data customer_keys_def completions_def ended_def)
  have visited: "fuse ex_visited = None"
    "distinct (map trip_id (route_plans (db ex_visited)))"
    "distinct (customer_keys (db ex_visited))"
    "stop_writes ''T1'' ''NORTH'' (db ex_visited) = 0"
    "stop_completed ''T1'' ''NORTH'' (db ex_visited)"
    "0 < length (assigned_customers (db ex_visited))"
    "assigned_customers (db ex_visited) ! 0 =
       (ex_customer ''NORTH'' 45 10 True)\<lparr>completed_at := Some 500\<rparr>"
    by (simp_all add: example_data customer_keys_def stop_writes_def stop_completed_def)
  have fired: "1 \<le> completions ''T1'' (db (evaluations ex_evaluations ex_two_stops))"
    "1 \<le> stop_writes ''T1'' ''NORTH'' (db (evaluations ex_evaluations ex_two_stops))"
    unfolding evaluations_db[OF two_stops(1)] two_stops(6)
    by (simp_all add: ex_evaluations_def example_data evaluate_db_def processVehicleData_db_def
        handleLongStop_db_def check_db_def all_stops_completed_def store_operations
        completions_def stop_writes_def example_stops_near example_stops_far)
  note run = evaluations_complete_once [OF two_stops(1,2,3), of "''T1''" ex_evaluations
      "''NORTH''"]
  note closed_run = evaluations_complete_once [OF finished(1,2,3), of "''T1''" ex_evaluations
      "''NORTH''"]
  note visited_run = evaluations_complete_once [OF visited(1,2,3), of "''T1''" ex_evaluations
      "''NORTH''"]
  have once: "completions ''T1'' (db (evaluations ex_evaluations ex_two_stops)) = 1"
    using run [THEN conjunct1] two_stops(4) fired(1) by simp
  have marked_once:
    "stop_writes ''T1'' ''NORTH'' (db (evaluations ex_evaluations ex_two_stops)) = 1"
    using run [THEN conjunct2, THEN conjunct2, THEN conjunct1] two_stops(5) fired(2) by simp
  have never: "completions ''T1'' (db (evaluations ex_evaluations ex_finished)) = 0"
    using closed_run [THEN conjunct2, THEN conjunct1] finished(4,5) by simp
  have unmarked:
    "stop_writes ''T1'' ''NORTH'' (db (evaluations ex_evaluations ex_visited)) = 0"
    using visited_run [THEN conjunct2, THEN conjunct2, THEN conjunct2, THEN conjunct1]
      visited(4,5)
    by simp
  have kept: "assigned_customers (db (evaluations ex_evaluations ex_visited)) ! 0 =
     (ex_customer ''NORTH'' 45 10 True)\<lparr>completed_at := Some 500\<rparr>"
    using visited_run [THEN conjunct2, THEN conjunct2, THEN conjunct2, THEN conjunct2,
        rule_format, of 0] visited(6,7)
    by (simp add: ex_customer_def)
  show ?thesis
    using once marked_once never unmarked kept by blast
qed

section \<open>A trip without customer stops\<close>

text \<open>
  C10. When no customer stop belongs to the trip, \<open>checkTripCompletion\<close> leaves the
  store as it is: \<open>complete_trip\<close> is not called and the trip keeps its unset
  \<open>actual_end_time\<close>. Whenever the check does write to the store, the trip has at
  least one stop and every stop of the trip is completed.
\<close>

theorem checkTripCompletion_without_stops:
  "((\<forall>c\<in>set (assigned_customers (db w)). ac_trip_id c \<noteq> t) \<longrightarrow>
      db (snd (checkTripCompletion t w)) = db w) \<and>
   (journal (db (snd (checkTripCompletion t w))) \<noteq> journal (db w) \<longrightarrow>
      (\<exists>c\<in>set (assigned_customers (db w)). ac_trip_id c = t) \<and>
      (\<forall>c\<in>set (assigned_customers (db w)). ac_trip_id c = t \<longrightarrow> completed c))"
proof (intro conjI impI)
  assume "\<forall>c\<in>set (assigned_customers (db w)). ac_trip_id c \<noteq> t"
  then show "db (snd (checkTripCompletion t w)) = db w"
    by (simp add: checkTripCompletion_def io_bind_def ext_call_def select_completed_def
        io_return_def io_now_def filter_empty_conv split: option.splits nat.splits)
next
  assume changed: "journal (db (snd (checkTripCompletion t w))) \<noteq> journal (db w)"
  then show "\<exists>c\<in>set (assigned_customers (db w)). ac_trip_id c = t"
    by (auto simp add: checkTripCompletion_def io_bind_def ext_call_def select_completed_def
        io_return_def io_now_def filter_empty_conv split: option.splits nat.splits if_splits)
  from changed show "\<forall>c\<in>set (assigned_customers (db w)). ac_trip_id c = t \<longrightarrow> completed c"
    by (auto simp add: checkTripCompletion_def io_bind_def ext_call_def select_completed_def
        io_return_def io_now_def list_all_iff split: option.splits nat.splits if_splits)
qed

theorem checkTripCompletion_without_stops_witness:
  "db (snd (checkTripCompletion ''T1'' ex_world)) = db ex_world \<and>
   actual_end_time (hd (route_plans (db (snd (checkTripCompletion ''T1'' ex_world))))) = None \<and>
   journal (db (snd (checkTripCompletion ''T1''
      (ex_world\<lparr>db := ex_store\<lparr>assigned_customers := [ex_customer ''C1'' 1 1 True]\<rparr>\<rparr>)))) =
     [CompleteTrip ''T1'']"
  using checkTripCompletion_without_stops [of ex_world "''T1''"]
  by (simp add: ex_world_def ex_store_def ex_customer_def checkTripCompletion_def io_bind_def
      ext_call_def select_completed_def io_return_def io_now_def complete_trip_def)

end
